theory Spec2Isabelle
  imports Complex_Main
begin

section \<open>The game of Pig (IS211\_Assignment8.py)\<close>

text \<open>
  A shallow embedding of \<^verbatim>\<open>src/IS211_Assignment8.py\<close>. Objects are records, the
  mutation of a player object is the record returned by the function that mutates it,
  exceptions are values of \<open>error\<close>, and everything the program takes from or gives to
  its environment is a field of \<open>world\<close>: the pseudo-random generator, the lines typed
  on standard input, the wall clock and the lines printed.
\<close>

subsection \<open>The environment\<close>

text \<open>
  Every \<^verbatim>\<open>print\<close> of the program is one \<open>line\<close>; the constructor says which
  \<^verbatim>\<open>print\<close> statement it is and carries the values interpolated into the message
  (the layout of the text is not modelled). \<open>Prompt\<close> is the prompt written by
  \<^verbatim>\<open>input("Roll again (r) or Hold (h)? ")\<close>.
\<close>

datatype line =
    TurnBanner string
  | Rolled string int
  | RolledOne
  | TurnTotal int int
  | Chooses string string
  | Prompt
  | Wins string int
  | Welcome
  | WelcomeTimed
  | TimeUpWins string int
  | TimeUpTie

text \<open>
  The exceptions the program can raise: \<^verbatim>\<open>ValueError\<close> with its message (from
  \<^verbatim>\<open>create_player\<close>), \<^verbatim>\<open>EOFError\<close> (from \<^verbatim>\<open>input\<close> at the end of
  standard input), \<^verbatim>\<open>IndexError\<close> (from indexing the list of players) and the
  \<^verbatim>\<open>SystemExit\<close> of \<^verbatim>\<open>argparse\<close> on a rejected command line.
\<close>

datatype error = ValueError string | EOFError | IndexError | SystemExit int

text \<open>
  \<open>rng\<close> is the state of Python's global generator, given as the results that the
  coming calls of \<^verbatim>\<open>random.randint(1, 6)\<close> return, in order; \<open>stdin\<close> holds the
  lines that the coming calls of \<^verbatim>\<open>input\<close> read; \<open>clock\<close> holds the values that
  the coming calls of \<^verbatim>\<open>time.time()\<close> return; \<open>stdout\<close> is what has been printed.
  \<open>rng\<close> and \<open>clock\<close> are finite prefixes of unbounded sequences: a run that asks for
  more than the prefix holds has the result \<open>None\<close>. A character is a code point
  below 256.
\<close>

record world =
  rng :: "int list"
  stdin :: "string list"
  clock :: "real list"
  stdout :: "line list"

definition emit :: "line \<Rightarrow> world \<Rightarrow> world" where
  "emit l w = w\<lparr>stdout := stdout w @ [l]\<rparr>"

text \<open>\<^verbatim>\<open>input(prompt)\<close>: writes the prompt, reads one line, raises at end of input.\<close>

definition input_py :: "world \<Rightarrow> error + string \<times> world" where
  "input_py w =
     (case stdin w of
        [] \<Rightarrow> Inl EOFError
      | s # ss \<Rightarrow> Inr (s, emit Prompt (w\<lparr>stdin := ss\<rparr>)))"

text \<open>\<^verbatim>\<open>time.time()\<close>.\<close>

definition time_py :: "world \<Rightarrow> (real \<times> world) option" where
  "time_py w =
     (case clock w of
        [] \<Rightarrow> None
      | t # ts \<Rightarrow> Some (t, w\<lparr>clock := ts\<rparr>))"

subsection \<open>Python's \<^verbatim>\<open>str.strip\<close> and \<^verbatim>\<open>str.lower\<close>\<close>

text \<open>
  On code points below 256 the whitespace of \<^verbatim>\<open>str.strip()\<close> is 9 to 13, 28 to 32,
  133 and 160, and \<^verbatim>\<open>str.lower()\<close> adds 32 to the capital letters 65 to 90 and 192
  to 222 (215, the multiplication sign, apart).
\<close>

definition isspace :: "char \<Rightarrow> bool" where
  "isspace c =
     (let n = (of_char c :: nat)
      in (9 \<le> n \<and> n \<le> 13) \<or> (28 \<le> n \<and> n \<le> 32) \<or> n = 133 \<or> n = 160)"

definition strip :: "string \<Rightarrow> string" where
  "strip s = rev (dropWhile isspace (rev (dropWhile isspace s)))"

definition lower_char :: "char \<Rightarrow> char" where
  "lower_char c =
     (let n = (of_char c :: nat)
      in if (65 \<le> n \<and> n \<le> 90) \<or> (192 \<le> n \<and> n \<le> 222 \<and> n \<noteq> 215)
         then char_of (n + 32) else c)"

definition lower :: "string \<Rightarrow> string" where
  "lower s = map lower_char s"

subsection \<open>Die\<close>

text \<open>
  \<^verbatim>\<open>Die.__init__(seed)\<close> calls \<^verbatim>\<open>random.seed(seed)\<close>. Python's generator is not
  part of the repository: \<open>mt s\<close> stands for the results of \<^verbatim>\<open>random.randint(1, 6)\<close>
  that follow \<^verbatim>\<open>random.seed(s)\<close>, and is a parameter of everything that builds a
  die. The \<^verbatim>\<open>Die\<close> object itself has no field.
\<close>

definition Die_init :: "(int \<Rightarrow> int list) \<Rightarrow> int \<Rightarrow> world \<Rightarrow> world" where
  "Die_init mt seed w = w\<lparr>rng := mt seed\<rparr>"

text \<open>\<^verbatim>\<open>Die.roll\<close>.\<close>

definition roll :: "world \<Rightarrow> (int \<times> world) option" where
  "roll w =
     (case rng w of
        [] \<Rightarrow> None
      | r # rs \<Rightarrow> Some (r, w\<lparr>rng := rs\<rparr>))"

subsection \<open>Player, ComputerPlayer, PlayerFactory\<close>

text \<open>
  \<open>is_computer\<close> is the class of the object: true for a \<^verbatim>\<open>ComputerPlayer\<close>, false
  for a plain \<^verbatim>\<open>Player\<close>; it is what \<^verbatim>\<open>isinstance(player, ComputerPlayer)\<close> reads.
\<close>

record Player =
  name :: string
  score :: int
  is_computer :: bool

definition Player_init :: "string \<Rightarrow> Player" where
  "Player_init n = \<lparr>name = n, score = 0, is_computer = False\<rparr>"

definition ComputerPlayer_init :: "string \<Rightarrow> Player" where
  "ComputerPlayer_init n = (Player_init n)\<lparr>is_computer := True\<rparr>"

definition add_to_score :: "Player \<Rightarrow> int \<Rightarrow> Player" where
  "add_to_score p points = p\<lparr>score := score p + points\<rparr>"

definition reset_score :: "Player \<Rightarrow> Player" where
  "reset_score p = p\<lparr>score := 0\<rparr>"

definition decide :: "Player \<Rightarrow> int \<Rightarrow> string" where
  "decide p turn_total =
     (if turn_total \<ge> min 25 (100 - score p) then ''h'' else ''r'')"

definition create_player :: "string \<Rightarrow> string \<Rightarrow> error + Player" where
  "create_player player_type n =
     (if lower player_type = ''computer'' then Inr (ComputerPlayer_init n)
      else if lower player_type = ''human'' then Inr (Player_init n)
      else Inl (ValueError ''Invalid player type. Choose 'human' or 'computer'.''))"

subsection \<open>Game\<close>

text \<open>
  \<^verbatim>\<open>self.players\<close> is a list built with two elements and never resized: a pair.
  \<^verbatim>\<open>self.die\<close> has no field and is left out.
\<close>

record Game =
  players :: "Player \<times> Player"
  current_player_index :: int

definition Game_init ::
  "(int \<Rightarrow> int list) \<Rightarrow> string \<Rightarrow> string \<Rightarrow> world \<Rightarrow> error + Game \<times> world" where
  "Game_init mt player1_type player2_type w =
     (case create_player player1_type ''Player 1'' of
        Inl e \<Rightarrow> Inl e
      | Inr p1 \<Rightarrow>
          (case create_player player2_type ''Player 2'' of
             Inl e \<Rightarrow> Inl e
           | Inr p2 \<Rightarrow>
               Inr (\<lparr>players = (p1, p2), current_player_index = 0\<rparr>, Die_init mt 0 w)))"

definition switch_turn :: "'a Game_scheme \<Rightarrow> 'a Game_scheme" where
  "switch_turn g = g\<lparr>current_player_index := 1 - current_player_index g\<rparr>"

text \<open>
  Lines 77 to 82 of \<^verbatim>\<open>play_turn\<close>: the decision of a computer player comes from
  \<open>decide\<close> and is printed, the decision of a human player is the line read, stripped
  and put in lower case.
\<close>

definition get_decision :: "Player \<Rightarrow> int \<Rightarrow> world \<Rightarrow> error + string \<times> world" where
  "get_decision player turn_total w =
     (if is_computer player then
        (let decision = decide player turn_total
         in Inr (decision,
              emit (Chooses (name player) (if decision = ''h'' then ''Hold'' else ''Roll'')) w))
      else
        (case input_py w of
           Inl e \<Rightarrow> Inl e
         | Inr (s, w') \<Rightarrow> Inr (lower (strip s), w')))"

text \<open>
  The \<^verbatim>\<open>while True\<close> loop of \<^verbatim>\<open>play_turn\<close>, with the local \<^verbatim>\<open>turn_total\<close> as
  an argument. The player returned is the object after the turn.
\<close>

function play_turn_loop :: "Player \<Rightarrow> int \<Rightarrow> world \<Rightarrow> (error + Player \<times> world) option" where
  "play_turn_loop player turn_total w =
     (case roll w of
        None \<Rightarrow> None
      | Some (r, w1) \<Rightarrow>
          (let w2 = emit (Rolled (name player) r) w1
           in if r = 1 then Some (Inr (player, emit RolledOne w2))
              else
                (let turn_total' = turn_total + r;
                     w3 = emit (TurnTotal turn_total' (score player)) w2
                 in case get_decision player turn_total' w3 of
                      Inl e \<Rightarrow> Some (Inl e)
                    | Inr (decision, w4) \<Rightarrow>
                        if decision = ''h''
                        then Some (Inr (add_to_score player turn_total', w4))
                        else play_turn_loop player turn_total' w4)))"
  by pat_completeness auto

lemma rng_emit: "rng (emit l w) = rng w"
  by (simp add: emit_def)

lemma roll_Some: "roll w = Some (r, w1) \<Longrightarrow> rng w = r # rng w1"
  by (auto simp: roll_def split: list.splits)

lemma rng_get_decision: "get_decision p t w = Inr (d, w') \<Longrightarrow> rng w' = rng w"
  by (auto simp: get_decision_def input_py_def emit_def Let_def split: if_splits list.splits)

termination play_turn_loop
proof (relation "measure (\<lambda>(p, t, w). length (rng w))")
  show "wf (measure (\<lambda>(p, t, w). length (rng w)))"
    by simp
next
  fix player :: Player and turn_total :: int and w x2 x y w2 turn_total' w3 x2a xa ya
  assume "roll w = Some x2" "(x, y) = x2" "w2 = emit (Rolled (name player) x) y"
    "turn_total' = turn_total + x" "w3 = emit (TurnTotal turn_total' (score player)) w2"
    "get_decision player turn_total' w3 = Inr x2a" "(xa, ya) = x2a"
  then have "rng w = x # rng y" "rng ya = rng y"
    using roll_Some [of w x y] rng_get_decision [of player turn_total' w3 xa ya]
    by (simp_all add: rng_emit)
  then show "((player, turn_total', ya), player, turn_total, w)
      \<in> measure (\<lambda>(p, t, w). length (rng w))"
    by simp
qed

declare play_turn_loop.simps [simp del]

definition play_turn :: "Player \<Rightarrow> world \<Rightarrow> (error + Player \<times> world) option" where
  "play_turn player w = play_turn_loop player 0 (emit (TurnBanner (name player)) w)"

lemma rng_play_turn_loop:
  "play_turn_loop p t w = Some (Inr (p', w')) \<Longrightarrow> length (rng w') < length (rng w)"
proof (induction p t w rule: play_turn_loop.induct)
  case (1 player turn_total w)
  from "1.prems" obtain r w1 where r: "roll w = Some (r, w1)"
    by (subst (asm) play_turn_loop.simps) (auto split: option.splits)
  have len: "rng w = r # rng w1"
    using r by (rule roll_Some)
  show ?case
  proof (cases "r = 1")
    case True
    with "1.prems" r len show ?thesis
      by (subst (asm) play_turn_loop.simps) (auto simp: rng_emit)
  next
    case False
    let ?t = "turn_total + r"
    let ?w3 = "emit (TurnTotal ?t (score player)) (emit (Rolled (name player) r) w1)"
    from "1.prems" r False obtain d w4 where d: "get_decision player ?t ?w3 = Inr (d, w4)"
      by (subst (asm) play_turn_loop.simps) (auto simp: Let_def split: sum.splits)
    have w4: "rng w4 = rng w1"
      using rng_get_decision [OF d] by (simp add: rng_emit)
    show ?thesis
    proof (cases "d = ''h''")
      case True
      with "1.prems" r False d len w4 show ?thesis
        by (subst (asm) play_turn_loop.simps) (auto simp: Let_def)
    next
      case no_hold: False
      from "1.prems" r False d no_hold
      have "play_turn_loop player ?t w4 = Some (Inr (p', w'))"
        by (subst (asm) play_turn_loop.simps) (simp add: Let_def)
      then have "length (rng w') < length (rng w4)"
        using "1.IH" [OF r refl refl False refl refl d refl no_hold] by simp
      with len w4 show ?thesis by simp
    qed
  qed
qed

lemma rng_play_turn:
  "play_turn p w = Some (Inr (p', w')) \<Longrightarrow> length (rng w') < length (rng w)"
  using rng_play_turn_loop [of p 0 "emit (TurnBanner (name p)) w" p' w']
  by (simp add: play_turn_def rng_emit)

text \<open>
  \<^verbatim>\<open>self.players[self.current_player_index]\<close>, with Python's indexing of a list of
  two elements: 0 and -2 are the first, 1 and -1 the second, anything else raises.
\<close>

definition current_player :: "'a Game_scheme \<Rightarrow> error + Player" where
  "current_player g =
     (let i = current_player_index g; (p1, p2) = players g
      in if i = 0 \<or> i = - 2 then Inr p1
         else if i = 1 \<or> i = - 1 then Inr p2
         else Inl IndexError)"

text \<open>
  \<^verbatim>\<open>play_turn\<close> mutates the object that \<^verbatim>\<open>self.players\<close> holds at the current index:
  the player after the turn takes that place.
\<close>

definition put_current_player :: "'a Game_scheme \<Rightarrow> Player \<Rightarrow> 'a Game_scheme" where
  "put_current_player g p =
     (let i = current_player_index g; (p1, p2) = players g
      in if i = 0 \<or> i = - 2 then g\<lparr>players := (p, p2)\<rparr> else g\<lparr>players := (p1, p)\<rparr>)"

text \<open>
  The first two statements of the loop body of \<^verbatim>\<open>start\<close> (lines 100 and 101, and
  123 and 124 in the timed game): pick the current player, play the turn.
\<close>

definition take_turn :: "'a Game_scheme \<Rightarrow> world \<Rightarrow> (error + 'a Game_scheme \<times> world) option" where
  "take_turn g w =
     (case current_player g of
        Inl e \<Rightarrow> Some (Inl e)
      | Inr p \<Rightarrow>
          (case play_turn p w of
             None \<Rightarrow> None
           | Some (Inl e) \<Rightarrow> Some (Inl e)
           | Some (Inr (p', w')) \<Rightarrow> Some (Inr (put_current_player g p', w'))))"

text \<open>\<^verbatim>\<open>check_winner\<close>: the \<^verbatim>\<open>for\<close> loop over the two players, first to second.\<close>

definition check_winner :: "'a Game_scheme \<Rightarrow> world \<Rightarrow> bool \<times> world" where
  "check_winner g w =
     (let (p1, p2) = players g
      in if score p1 \<ge> 100 then (True, emit (Wins (name p1) (score p1)) w)
         else if score p2 \<ge> 100 then (True, emit (Wins (name p2) (score p2)) w)
         else (False, w))"

lemma rng_take_turn:
  "take_turn g w = Some (Inr (g', w')) \<Longrightarrow> length (rng w') < length (rng w)"
  by (auto simp: take_turn_def split: sum.splits option.splits dest: rng_play_turn)

lemma rng_check_winner: "check_winner g w = (b, w') \<Longrightarrow> rng w' = rng w"
  by (auto simp: check_winner_def rng_emit split: prod.splits if_splits)

text \<open>The \<^verbatim>\<open>while True\<close> loop of \<^verbatim>\<open>Game.start\<close>.\<close>

function start_loop :: "Game \<Rightarrow> world \<Rightarrow> (error + Game \<times> world) option" where
  "start_loop g w =
     (case take_turn g w of
        None \<Rightarrow> None
      | Some (Inl e) \<Rightarrow> Some (Inl e)
      | Some (Inr (g1, w1)) \<Rightarrow>
          (case check_winner g1 w1 of
             (True, w2) \<Rightarrow> Some (Inr (g1, w2))
           | (False, w2) \<Rightarrow> start_loop (switch_turn g1) w2))"
  by pat_completeness auto

termination start_loop
proof (relation "measure (\<lambda>(g, w). length (rng w))")
  show "wf (measure (\<lambda>(g, w). length (rng w)))"
    by simp
next
  fix g :: Game and w x2 b x y x2a xa ya
  assume "take_turn g w = Some x2" "x2 = Inr b" "(x, y) = b"
    "(x2a, ya) = check_winner x y"
  then have "length (rng y) < length (rng w)" "rng ya = rng y"
    using rng_take_turn [of g w x y] rng_check_winner [of x y x2a ya]
    by simp_all
  then show "((switch_turn x, ya), g, w) \<in> measure (\<lambda>(g, w). length (rng w))"
    by simp
qed

declare start_loop.simps [simp del]

definition start :: "Game \<Rightarrow> world \<Rightarrow> (error + Game \<times> world) option" where
  "start g w = start_loop g (emit Welcome w)"

subsection \<open>TimedGameProxy\<close>

text \<open>The subclass adds the field \<^verbatim>\<open>start_time\<close>, read from the clock by its constructor.\<close>

record TimedGameProxy = Game +
  start_time :: real

definition TimedGameProxy_init ::
  "(int \<Rightarrow> int list) \<Rightarrow> string \<Rightarrow> string \<Rightarrow> world
     \<Rightarrow> (error + TimedGameProxy \<times> world) option" where
  "TimedGameProxy_init mt player1_type player2_type w =
     (case Game_init mt player1_type player2_type w of
        Inl e \<Rightarrow> Some (Inl e)
      | Inr (g, w1) \<Rightarrow>
          (case time_py w1 of
             None \<Rightarrow> None
           | Some (t, w2) \<Rightarrow>
               Some (Inr (\<lparr>players = players g,
                           current_player_index = current_player_index g,
                           start_time = t\<rparr>, w2))))"

definition declare_winner :: "TimedGameProxy \<Rightarrow> world \<Rightarrow> world" where
  "declare_winner g w =
     (let (player1, player2) = players g
      in if score player1 > score player2
         then emit (TimeUpWins (name player1) (score player1)) w
         else if score player2 > score player1
         then emit (TimeUpWins (name player2) (score player2)) w
         else emit TimeUpTie w)"

lemma rng_time_py: "time_py w = Some (t, w') \<Longrightarrow> rng w' = rng w"
  by (auto simp: time_py_def split: list.splits)

text \<open>The \<^verbatim>\<open>while True\<close> loop of \<^verbatim>\<open>TimedGameProxy.start\<close>.\<close>

function timed_start_loop ::
  "TimedGameProxy \<Rightarrow> world \<Rightarrow> (error + TimedGameProxy \<times> world) option" where
  "timed_start_loop g w =
     (case time_py w of
        None \<Rightarrow> None
      | Some (t, w0) \<Rightarrow>
          if t - start_time g \<ge> 60 then Some (Inr (g, declare_winner g w0))
          else
            (case take_turn g w0 of
               None \<Rightarrow> None
             | Some (Inl e) \<Rightarrow> Some (Inl e)
             | Some (Inr (g1, w1)) \<Rightarrow>
                 (case check_winner g1 w1 of
                    (True, w2) \<Rightarrow> Some (Inr (g1, w2))
                  | (False, w2) \<Rightarrow> timed_start_loop (switch_turn g1) w2)))"
  by pat_completeness auto

termination timed_start_loop
proof (relation "measure (\<lambda>(g, w). length (rng w))")
  show "wf (measure (\<lambda>(g, w). length (rng w)))"
    by simp
next
  fix g :: TimedGameProxy and w x2 t w0 x2a b x y x2b ya
  assume "time_py w = Some x2" "(t, w0) = x2" "take_turn g w0 = Some x2a" "x2a = Inr b"
    "(x, y) = b" "(x2b, ya) = check_winner x y"
  then have "rng w0 = rng w" "length (rng y) < length (rng w0)" "rng ya = rng y"
    using rng_time_py [of w t w0] rng_take_turn [of g w0 x y]
      rng_check_winner [of x y x2b ya]
    by simp_all
  then show "((switch_turn x, ya), g, w) \<in> measure (\<lambda>(g, w). length (rng w))"
    by simp
qed

declare timed_start_loop.simps [simp del]

definition timed_start ::
  "TimedGameProxy \<Rightarrow> world \<Rightarrow> (error + TimedGameProxy \<times> world) option" where
  "timed_start g w = timed_start_loop g (emit WelcomeTimed w)"

subsection \<open>The command line\<close>

text \<open>
  The block under \<^verbatim>\<open>__main__\<close>, from the parsed arguments on: \<^verbatim>\<open>argparse\<close> accepts
  exactly \<^verbatim>\<open>human\<close> and \<^verbatim>\<open>computer\<close> for a player and exits with status 2 on
  anything else. The result is the two players at the end of the run and the world.
\<close>

definition finish ::
  "(error + 'a Game_scheme \<times> world) option \<Rightarrow> (error + (Player \<times> Player) \<times> world) option" where
  "finish r =
     (case r of
        None \<Rightarrow> None
      | Some (Inl e) \<Rightarrow> Some (Inl e)
      | Some (Inr (g, w)) \<Rightarrow> Some (Inr (players g, w)))"

definition main ::
  "(int \<Rightarrow> int list) \<Rightarrow> string \<Rightarrow> string \<Rightarrow> bool \<Rightarrow> world
     \<Rightarrow> (error + (Player \<times> Player) \<times> world) option" where
  "main mt player1 player2 timed w =
     (if (player1 \<noteq> ''human'' \<and> player1 \<noteq> ''computer'')
         \<or> (player2 \<noteq> ''human'' \<and> player2 \<noteq> ''computer'')
      then Some (Inl (SystemExit 2))
      else if timed then
        (case TimedGameProxy_init mt player1 player2 w of
           None \<Rightarrow> None
         | Some (Inl e) \<Rightarrow> Some (Inl e)
         | Some (Inr (game, w1)) \<Rightarrow> finish (timed_start game w1))
      else
        (case Game_init mt player1 player2 w of
           Inl e \<Rightarrow> Some (Inl e)
         | Inr (game, w1) \<Rightarrow> finish (start game w1)))"

subsection \<open>What the game loop prints\<close>

text \<open>
  The lines a turn prints after its banner, the names on the banners of a transcript, the
  list that alternates between two values, the pairs of turn total and total score printed by
  a transcript, and the number of decisions taken in a turn that drew the rolls \<open>used\<close>:
  one after each roll other than 1.
\<close>

fun in_turn :: "line \<Rightarrow> bool" where
  "in_turn (Rolled n r) = True"
| "in_turn RolledOne = True"
| "in_turn (TurnTotal t s) = True"
| "in_turn (Chooses n d) = True"
| "in_turn Prompt = True"
| "in_turn l = False"

fun turns :: "line list \<Rightarrow> string list" where
  "turns [] = []"
| "turns (TurnBanner n # ls) = n # turns ls"
| "turns (l # ls) = turns ls"


fun totals :: "line list \<Rightarrow> (int \<times> int) list" where
  "totals [] = []"
| "totals (TurnTotal t s # ls) = (t, s) # totals ls"
| "totals (l # ls) = totals ls"

definition decisions :: "int list \<Rightarrow> nat" where
  "decisions used = length used - (if last used = 1 then 1 else 0)"

text \<open>The line that \<^verbatim>\<open>declare_winner\<close> prints for a game.\<close>

definition time_up_line :: "'a Game_scheme \<Rightarrow> line" where
  "time_up_line g =
     (if score (snd (players g)) < score (fst (players g))
      then TimeUpWins (name (fst (players g))) (score (fst (players g)))
      else if score (fst (players g)) < score (snd (players g))
      then TimeUpWins (name (snd (players g))) (score (snd (players g)))
      else TimeUpTie)"

subsection \<open>What one turn does\<close>

text \<open>
  The loop of \<^verbatim>\<open>play_turn\<close> unfolded once, on a roll of 1 and on any other roll, and
  the trace of every turn that ends: it drew the rolls \<open>used\<close>, none of them but perhaps
  the last was a 1, it printed the running sum after each roll other than 1, it took one
  decision after each such roll, from \<open>decide\<close> or from the next line of input, and no
  decision but the one after the last roll was \<open>''h''\<close>.
\<close>

lemma play_turn_loop_bust:
  "rng w = 1 # rest \<Longrightarrow>
   play_turn_loop p t w =
     Some (Inr (p, emit RolledOne (emit (Rolled (name p) 1) (w\<lparr>rng := rest\<rparr>))))"
  by (subst play_turn_loop.simps) (simp add: roll_def)

lemma play_turn_loop_step:
  "rng w = r # rest \<Longrightarrow> r \<noteq> 1 \<Longrightarrow>
   play_turn_loop p t w =
     (case get_decision p (t + r)
             (emit (TurnTotal (t + r) (score p)) (emit (Rolled (name p) r) (w\<lparr>rng := rest\<rparr>))) of
        Inl e \<Rightarrow> Some (Inl e)
      | Inr (d, w4) \<Rightarrow>
          if d = ''h'' then Some (Inr (add_to_score p (t + r), w4))
          else play_turn_loop p (t + r) w4)"
  by (subst play_turn_loop.simps) (simp add: roll_def Let_def)

lemma totals_append: "totals (xs @ ys) = totals xs @ totals ys"
  by (induction xs rule: totals.induct) simp_all

lemma decisions_Cons: "used \<noteq> [] \<Longrightarrow> decisions (r # used) = Suc (decisions used)"
  by (cases used) (auto simp: decisions_def)

lemma get_decision_computer:
  "is_computer p \<Longrightarrow> get_decision p t w = Inr (d, w') \<Longrightarrow>
   d = decide p t \<and> stdin w' = stdin w \<and> totals (stdout w') = totals (stdout w)"
  by (auto simp: get_decision_def Let_def emit_def totals_append)

lemma get_decision_human:
  "\<not> is_computer p \<Longrightarrow> get_decision p t w = Inr (d, w') \<Longrightarrow>
   \<exists>s. stdin w = s # stdin w' \<and> d = lower (strip s) \<and> totals (stdout w') = totals (stdout w)"
  by (auto simp: get_decision_def input_py_def emit_def totals_append split: list.splits)

lemma play_turn_loop_trace:
  "play_turn_loop p t w = Some (Inr (p', w')) \<Longrightarrow>
   \<exists>used. rng w = used @ rng w' \<and> used \<noteq> [] \<and> 1 \<notin> set (butlast used) \<and>
     (if last used = 1 then p' = p else p' = add_to_score p (t + sum_list used)) \<and>
     totals (stdout w') = totals (stdout w) @
       map (\<lambda>k. (t + sum_list (take (Suc k) used), score p)) [0..<decisions used] \<and>
     (if is_computer p
      then stdin w' = stdin w \<and>
           (\<forall>k<decisions used.
              (decide p (t + sum_list (take (Suc k) used)) = ''h'') = (Suc k = length used))
      else \<exists>ls. stdin w = ls @ stdin w' \<and> length ls = decisions used \<and>
           (\<forall>k<length ls. (lower (strip (ls ! k)) = ''h'') = (Suc k = length used)))"
proof (induction p t w rule: play_turn_loop.induct)
  case (1 player turn_total w)
  from "1.prems" obtain r w1 where r: "roll w = Some (r, w1)"
    by (subst (asm) play_turn_loop.simps) (auto split: option.splits)
  have len: "rng w = r # rng w1"
    using r by (rule roll_Some)
  have w1: "stdin w1 = stdin w" "stdout w1 = stdout w"
    using r by (auto simp: roll_def split: list.splits)
  show ?case
  proof (cases "r = 1")
    case True
    with "1.prems" r have res: "p' = player" "w' = emit RolledOne (emit (Rolled (name player) r) w1)"
      by (subst (asm) play_turn_loop.simps, auto)+
    show ?thesis
      using res len True w1
      by (intro exI [of _ "[1]"]) (simp add: emit_def decisions_def totals_append)
  next
    case False
    let ?t = "turn_total + r"
    let ?w3 = "emit (TurnTotal ?t (score player)) (emit (Rolled (name player) r) w1)"
    from "1.prems" r False obtain d w4 where d: "get_decision player ?t ?w3 = Inr (d, w4)"
      by (subst (asm) play_turn_loop.simps) (auto simp: Let_def split: sum.splits)
    have w4: "rng w4 = rng w1"
      using rng_get_decision [OF d] by (simp add: rng_emit)
    have w3: "stdin ?w3 = stdin w" "totals (stdout ?w3) = totals (stdout w) @ [(?t, score player)]"
      using w1 by (simp_all add: emit_def totals_append)
    show ?thesis
    proof (cases "d = ''h''")
      case True
      with "1.prems" r False d have res: "p' = add_to_score player ?t" "w' = w4"
        by (subst (asm) play_turn_loop.simps, auto simp: Let_def)+
      have dec1: "decisions [r] = 1"
        using False by (simp add: decisions_def)
      show ?thesis
      proof (intro exI [of _ "[r]"] conjI)
        show "rng w = [r] @ rng w'" using len w4 res by simp
        show "[r] \<noteq> []" by simp
        show "1 \<notin> set (butlast [r])" by simp
        show "if last [r] = 1 then p' = player
              else p' = add_to_score player (turn_total + sum_list [r])"
          using False res by simp
        show "totals (stdout w') = totals (stdout w) @
            map (\<lambda>k. (turn_total + sum_list (take (Suc k) [r]), score player)) [0..<decisions [r]]"
        proof (cases "is_computer player")
          case True
          from get_decision_computer [OF True d] w3 res dec1 show ?thesis by simp
        next
          case False
          from get_decision_human [OF False d] w3 res dec1 show ?thesis by auto
        qed
        show "if is_computer player
          then stdin w' = stdin w \<and>
             (\<forall>k<decisions [r].
                (decide player (turn_total + sum_list (take (Suc k) [r])) = ''h'') = (Suc k = length [r]))
          else \<exists>ls. stdin w = ls @ stdin w' \<and> length ls = decisions [r] \<and>
             (\<forall>k<length ls. (lower (strip (ls ! k)) = ''h'') = (Suc k = length [r]))"
        proof (cases "is_computer player")
          case c: True
          from get_decision_computer [OF c d] w3 res dec1 True c show ?thesis by simp
        next
          case h: False
          from get_decision_human [OF h d] w3 obtain s where
            s: "stdin w = s # stdin w4" "d = lower (strip s)"
            by auto
          have "\<exists>ls. stdin w = ls @ stdin w' \<and> length ls = decisions [r] \<and>
             (\<forall>k<length ls. (lower (strip (ls ! k)) = ''h'') = (Suc k = length [r]))"
            using s res dec1 True by (intro exI [of _ "[s]"]) simp
          with h show ?thesis by simp
        qed
      qed
    next
      case no_hold: False
      from "1.prems" r False d no_hold
      have "play_turn_loop player ?t w4 = Some (Inr (p', w'))"
        by (subst (asm) play_turn_loop.simps) (simp add: Let_def)
      from "1.IH" [OF r refl refl False refl refl d refl no_hold this]
      obtain used where u: "rng w4 = used @ rng w'" "used \<noteq> []" "1 \<notin> set (butlast used)"
        "if last used = 1 then p' = player else p' = add_to_score player (?t + sum_list used)"
        "totals (stdout w') = totals (stdout w4) @
           map (\<lambda>k. (?t + sum_list (take (Suc k) used), score player)) [0..<decisions used]"
        "if is_computer player
         then stdin w' = stdin w4 \<and>
           (\<forall>k<decisions used.
              (decide player (?t + sum_list (take (Suc k) used)) = ''h'') = (Suc k = length used))
         else \<exists>ls. stdin w4 = ls @ stdin w' \<and> length ls = decisions used \<and>
           (\<forall>k<length ls. (lower (strip (ls ! k)) = ''h'') = (Suc k = length used))"
        by blast
      note dc = decisions_Cons [OF u(2), of r]
      have tot4: "totals (stdout w4) = totals (stdout w) @ [(?t, score player)]"
      proof (cases "is_computer player")
        case True
        from get_decision_computer [OF True d] w3 show ?thesis by simp
      next
        case False
        from get_decision_human [OF False d] w3 show ?thesis by auto
      qed
      show ?thesis
      proof (intro exI [of _ "r # used"] conjI)
        show "rng w = (r # used) @ rng w'"
          using len w4 u(1) by simp
        show "r # used \<noteq> []"
          by simp
        show "1 \<notin> set (butlast (r # used))"
          using u(2,3) False by simp
        show "if last (r # used) = 1 then p' = player
          else p' = add_to_score player (turn_total + sum_list (r # used))"
          using u(2,4) by (simp add: add.assoc split del: if_split cong: if_cong)
        show "totals (stdout w') = totals (stdout w) @
            map (\<lambda>k. (turn_total + sum_list (take (Suc k) (r # used)), score player))
              [0..<decisions (r # used)]"
          using u(5) tot4 dc by (simp add: map_upt_Suc add.assoc del: upt_Suc)
        show "if is_computer player
          then stdin w' = stdin w \<and>
             (\<forall>k<decisions (r # used).
                (decide player (turn_total + sum_list (take (Suc k) (r # used))) = ''h'')
                = (Suc k = length (r # used)))
          else \<exists>ls. stdin w = ls @ stdin w' \<and> length ls = decisions (r # used) \<and>
             (\<forall>k<length ls. (lower (strip (ls ! k)) = ''h'') = (Suc k = length (r # used)))"
        proof (cases "is_computer player")
          case c: True
          from get_decision_computer [OF c d] w3 have
            dd: "d = decide player ?t" "stdin w4 = stdin w"
            by simp_all
          from u(6) c have
            i: "stdin w' = stdin w4"
              "\<And>k. k < decisions used \<Longrightarrow>
                (decide player (?t + sum_list (take (Suc k) used)) = ''h'') = (Suc k = length used)"
            by simp_all
          have "(decide player (turn_total + sum_list (take (Suc k) (r # used))) = ''h'')
                = (Suc k = length (r # used))" if "k < decisions (r # used)" for k
          proof (cases k)
            case 0
            with dd(1) no_hold u(2) show ?thesis by simp
          next
            case (Suc j)
            with that dc have "j < decisions used" by simp
            from i(2) [OF this] Suc show ?thesis by (simp add: add.assoc)
          qed
          with c i(1) dd(2) show ?thesis by simp
        next
          case h: False
          from get_decision_human [OF h d] w3 obtain s where
            s: "stdin w = s # stdin w4" "d = lower (strip s)"
            by auto
          from u(6) h obtain ls where
            l: "stdin w4 = ls @ stdin w'" "length ls = decisions used"
              "\<And>k. k < length ls \<Longrightarrow> (lower (strip (ls ! k)) = ''h'') = (Suc k = length used)"
            by auto
          have "(lower (strip ((s # ls) ! k)) = ''h'') = (Suc k = length (r # used))"
            if "k < length (s # ls)" for k
          proof (cases k)
            case 0
            with s(2) no_hold u(2) show ?thesis by simp
          next
            case (Suc j)
            with that have "j < length ls" by simp
            from l(3) [OF this] Suc show ?thesis by simp
          qed
          then have "\<exists>ls. stdin w = ls @ stdin w' \<and> length ls = decisions (r # used) \<and>
             (\<forall>k<length ls. (lower (strip (ls ! k)) = ''h'') = (Suc k = length (r # used)))"
            using s(1) l(1,2) dc by (intro exI [of _ "s # ls"]) simp
          with h show ?thesis by simp
        qed
      qed
    qed
  qed
qed

lemma play_turn_cases:
  "play_turn p w = Some (Inr (p', w')) \<Longrightarrow>
   \<exists>used. rng w = used @ rng w' \<and> used \<noteq> [] \<and> 1 \<notin> set (butlast used) \<and>
     (if last used = 1 then p' = p else p' = add_to_score p (sum_list used))"
  using play_turn_loop_trace [of p 0 "emit (TurnBanner (name p)) w" p' w']
  by (auto simp: play_turn_def rng_emit split del: if_split cong: if_cong)

subsection \<open>What one turn leaves alone\<close>

lemma emit_frame:
  "clock (emit l w) = clock w" "stdin (emit l w) = stdin w" "stdout (emit l w) = stdout w @ [l]"
  by (simp_all add: emit_def)

lemma roll_frame:
  "roll w = Some (r, w1) \<Longrightarrow> clock w1 = clock w \<and> stdout w1 = stdout w \<and> stdin w1 = stdin w"
  by (auto simp: roll_def split: list.splits)

lemma get_decision_frame:
  "get_decision p t w = Inr (d, w') \<Longrightarrow>
   clock w' = clock w \<and> (\<exists>ls. stdout w' = stdout w @ ls \<and> list_all in_turn ls)"
  by (auto simp: get_decision_def input_py_def emit_def Let_def split: if_splits list.splits)

lemma play_turn_loop_frame:
  "play_turn_loop p t w = Some (Inr (p', w')) \<Longrightarrow>
   clock w' = clock w \<and> (\<exists>ls. stdout w' = stdout w @ ls \<and> list_all in_turn ls)"
proof (induction p t w rule: play_turn_loop.induct)
  case (1 player turn_total w)
  from "1.prems" obtain r w1 where r: "roll w = Some (r, w1)"
    by (subst (asm) play_turn_loop.simps) (auto split: option.splits)
  note f1 = roll_frame [OF r]
  let ?w2 = "emit (Rolled (name player) r) w1"
  show ?case
  proof (cases "r = 1")
    case True
    with "1.prems" r have "w' = emit RolledOne ?w2"
      by (subst (asm) play_turn_loop.simps) auto
    then have "clock w' = clock w" "stdout w' = stdout w @ [Rolled (name player) r, RolledOne]"
      using f1 by (simp_all add: emit_frame)
    then show ?thesis by simp
  next
    case False
    let ?t = "turn_total + r"
    let ?w3 = "emit (TurnTotal ?t (score player)) ?w2"
    from "1.prems" r False obtain d w4 where d: "get_decision player ?t ?w3 = Inr (d, w4)"
      by (subst (asm) play_turn_loop.simps) (auto simp: Let_def split: sum.splits)
    from get_decision_frame [OF d] obtain ls where
      w4: "clock w4 = clock w" "stdout w4 = stdout ?w3 @ ls" "list_all in_turn ls"
      using f1 by (auto simp: emit_frame)
    have w4': "stdout w4 = stdout w @ ([Rolled (name player) r, TurnTotal ?t (score player)] @ ls)"
      using w4(2) f1 by (simp add: emit_frame)
    show ?thesis
    proof (cases "d = ''h''")
      case True
      with "1.prems" r False d have "w' = w4"
        by (subst (asm) play_turn_loop.simps) (auto simp: Let_def)
      with w4 w4' show ?thesis
        by (intro conjI exI [of _ "[Rolled (name player) r, TurnTotal ?t (score player)] @ ls"]) simp_all
    next
      case no_hold: False
      from "1.prems" r False d no_hold
      have "play_turn_loop player ?t w4 = Some (Inr (p', w'))"
        by (subst (asm) play_turn_loop.simps) (simp add: Let_def)
      from "1.IH" [OF r refl refl False refl refl d refl no_hold this]
      obtain ls' where l: "clock w' = clock w4" "stdout w' = stdout w4 @ ls'" "list_all in_turn ls'"
        by blast
      show ?thesis
        using l w4 w4'
        by (intro conjI exI [of _ "[Rolled (name player) r, TurnTotal ?t (score player)] @ ls @ ls'"])
          simp_all
    qed
  qed
qed

lemma play_turn_frame:
  "play_turn p w = Some (Inr (p', w')) \<Longrightarrow>
   clock w' = clock w \<and>
   (\<exists>ls. stdout w' = stdout w @ TurnBanner (name p) # ls \<and> list_all in_turn ls)"
  using play_turn_loop_frame [of p 0 "emit (TurnBanner (name p)) w" p' w']
  by (auto simp: play_turn_def emit_frame)

lemma play_turn_player:
  assumes "play_turn p w = Some (Inr (p', w'))"
  shows "name p' = name p" "is_computer p' = is_computer p"
    "list_all (\<lambda>r. 1 \<le> r) (rng w) \<Longrightarrow> score p \<le> score p'"
proof -
  from play_turn_cases [OF assms] obtain used where u: "rng w = used @ rng w'"
    and c: "if last used = 1 then p' = p else p' = add_to_score p (sum_list used)"
    by (auto split: if_splits)
  from c show "name p' = name p" "is_computer p' = is_computer p"
    by (auto simp: add_to_score_def split: if_splits)
  assume "list_all (\<lambda>r. 1 \<le> r) (rng w)"
  with u have "list_all (\<lambda>r. 1 \<le> r) used" by simp
  then have "0 \<le> sum_list used"
    by (induction used) auto
  with c show "score p \<le> score p'"
    by (auto simp: add_to_score_def split: if_splits)
qed

lemma take_turn_cases:
  "take_turn g w = Some (Inr (g1, w1)) \<Longrightarrow>
   \<exists>p p'. current_player g = Inr p \<and> play_turn p w = Some (Inr (p', w1)) \<and>
     g1 = put_current_player g p'"
  by (auto simp: take_turn_def split: sum.splits option.splits)

lemma current_player_0: "current_player_index g = 0 \<Longrightarrow> current_player g = Inr (fst (players g))"
  by (simp add: current_player_def split: prod.splits)

lemma current_player_1: "current_player_index g = 1 \<Longrightarrow> current_player g = Inr (snd (players g))"
  by (simp add: current_player_def split: prod.splits)

lemma put_current_player_0:
  "current_player_index g = 0 \<Longrightarrow> put_current_player g p = g\<lparr>players := (p, snd (players g))\<rparr>"
  by (simp add: put_current_player_def split: prod.splits)

lemma put_current_player_1:
  "current_player_index g = 1 \<Longrightarrow> put_current_player g p = g\<lparr>players := (fst (players g), p)\<rparr>"
  by (simp add: put_current_player_def split: prod.splits)

lemma put_current_player_index:
  "current_player_index (put_current_player g p) = current_player_index g"
  "Game.more (put_current_player g p) = Game.more g"
  by (simp_all add: put_current_player_def Let_def split: prod.splits)

subsection \<open>The loop of \<^verbatim>\<open>Game.start\<close>\<close>

lemma check_winner_cases:
  "check_winner g w =
     (if 100 \<le> score (fst (players g))
      then (True, emit (Wins (name (fst (players g))) (score (fst (players g)))) w)
      else if 100 \<le> score (snd (players g))
      then (True, emit (Wins (name (snd (players g))) (score (snd (players g)))) w)
      else (False, w))"
  by (simp add: check_winner_def split: prod.splits)

lemma start_loop_unfold:
  "take_turn g w = Some (Inr (g1, w1)) \<Longrightarrow>
   start_loop g w =
     (if fst (check_winner g1 w1) then Some (Inr (g1, snd (check_winner g1 w1)))
      else start_loop (switch_turn g1) w1)"
  by (subst start_loop.simps) (simp add: check_winner_cases)

lemma start_loop_Inr:
  "start_loop g w = Some (Inr (g', w')) \<Longrightarrow> \<exists>g1 w1. take_turn g w = Some (Inr (g1, w1))"
  by (subst (asm) start_loop.simps) (auto split: option.splits sum.splits)

lemma switch_turn_simps:
  "current_player_index (switch_turn g) = 1 - current_player_index g"
  "players (switch_turn g) = players g"
  by (simp_all add: switch_turn_def)

lemma take_turn_summary:
  assumes "take_turn g w = Some (Inr (g1, w1))"
    and "current_player_index g = 0 \<or> current_player_index g = 1"
  shows "\<exists>p p' q ls. current_player g = Inr p \<and> current_player g1 = Inr p' \<and>
      current_player (switch_turn g) = Inr q \<and> current_player (switch_turn g1) = Inr q \<and>
      name p' = name p \<and> current_player_index g1 = current_player_index g \<and>
      clock w1 = clock w \<and>
      stdout w1 = stdout w @ TurnBanner (name p) # ls \<and> list_all in_turn ls"
proof -
  from take_turn_cases [OF assms(1)] obtain p p' where
    p: "current_player g = Inr p" "play_turn p w = Some (Inr (p', w1))"
       "g1 = put_current_player g p'"
    by blast
  from play_turn_frame [OF p(2)] obtain ls where
    f: "clock w1 = clock w" "stdout w1 = stdout w @ TurnBanner (name p) # ls" "list_all in_turn ls"
    by blast
  note n = play_turn_player(1) [OF p(2)]
  from assms(2) show ?thesis
  proof
    assume 0: "current_player_index g = 0"
    then have "current_player g1 = Inr p'" "current_player (switch_turn g) = Inr (snd (players g))"
      "current_player (switch_turn g1) = Inr (snd (players g))"
      "current_player_index g1 = current_player_index g"
      using p(3) by (simp_all add: put_current_player_0 current_player_0 current_player_1
          switch_turn_simps)
    with p(1) f n show ?thesis by blast
  next
    assume 1: "current_player_index g = 1"
    then have "current_player g1 = Inr p'" "current_player (switch_turn g) = Inr (fst (players g))"
      "current_player (switch_turn g1) = Inr (fst (players g))"
      "current_player_index g1 = current_player_index g"
      using p(3) by (simp_all add: put_current_player_1 current_player_0 current_player_1
          switch_turn_simps)
    with p(1) f n show ?thesis by blast
  qed
qed

lemma in_turn_no_Wins: "list_all in_turn ls \<Longrightarrow> Wins n s \<notin> set ls"
  by (induction ls) auto

lemma current_player_scores:
  assumes "current_player_index g = 0 \<or> current_player_index g = 1"
    and "current_player g = Inr p" "current_player (switch_turn g) = Inr q"
  shows "{score p, score q} = {score (fst (players g)), score (snd (players g))}"
    and "current_player_index g = 0 \<Longrightarrow> p = fst (players g) \<and> q = snd (players g)"
    and "current_player_index g = 1 \<Longrightarrow> p = snd (players g) \<and> q = fst (players g)"
  using assms
  by (auto simp: current_player_0 current_player_1 switch_turn_simps)

lemma start_loop_wins:
  "start_loop g w = Some (Inr (g', w')) \<Longrightarrow>
   current_player_index g = 0 \<or> current_player_index g = 1 \<Longrightarrow>
   score (fst (players g)) < 100 \<Longrightarrow> score (snd (players g)) < 100 \<Longrightarrow>
   \<exists>p q ls. current_player g' = Inr p \<and> current_player (switch_turn g') = Inr q \<and>
     100 \<le> score p \<and> score q < 100 \<and>
     stdout w' = stdout w @ ls @ [Wins (name p) (score p)] \<and> (\<forall>n s. Wins n s \<notin> set ls)"
proof (induction g w rule: start_loop.induct)
  case (1 g w)
  from start_loop_Inr [OF "1.prems"(1)] obtain g1 w1 where
    t: "take_turn g w = Some (Inr (g1, w1))"
    by blast
  from take_turn_summary [OF t "1.prems"(2)] obtain p p' q ls where
    s: "current_player g = Inr p" "current_player g1 = Inr p'"
       "current_player (switch_turn g) = Inr q" "current_player (switch_turn g1) = Inr q"
       "current_player_index g1 = current_player_index g"
       "stdout w1 = stdout w @ TurnBanner (name p) # ls" "list_all in_turn ls"
    by blast
  have idx1: "current_player_index g1 = 0 \<or> current_player_index g1 = 1"
    using s(5) "1.prems"(2) by simp
  have q: "score q < 100"
    using current_player_scores(2,3) [OF "1.prems"(2) s(1) s(3)] "1.prems"(2,3,4) by auto
  note u = start_loop_unfold [OF t]
  have nw: "\<forall>n s. Wins n s \<notin> set (TurnBanner (name p) # ls)"
    using in_turn_no_Wins [OF s(7)] by simp
  show ?case
  proof (cases "fst (check_winner g1 w1)")
    case True
    with u "1.prems"(1) have res: "g' = g1" "w' = snd (check_winner g1 w1)"
      by simp_all
    from True have some: "100 \<le> score (fst (players g1)) \<or> 100 \<le> score (snd (players g1))"
      by (simp add: check_winner_cases split: if_splits)
    have "100 \<le> score p' \<and> w' = emit (Wins (name p') (score p')) w1"
    proof (cases "current_player_index g1 = 0")
      case True
      from current_player_scores(2) [OF idx1 s(2) s(4) True] q some res(2)
      show ?thesis by (simp add: check_winner_cases)
    next
      case False
      with idx1 have "current_player_index g1 = 1" by simp
      from current_player_scores(3) [OF idx1 s(2) s(4) this] q some res(2)
      show ?thesis by (simp add: check_winner_cases)
    qed
    then have "100 \<le> score p'"
      "stdout w' = stdout w @ (TurnBanner (name p) # ls) @ [Wins (name p') (score p')]"
      using s(6) by (simp_all add: emit_frame)
    with res(1) s(2,4) q nw show ?thesis by blast
  next
    case False
    with u "1.prems"(1) have rec: "start_loop (switch_turn g1) w1 = Some (Inr (g', w'))"
      by simp
    from False have cw: "check_winner g1 w1 = (False, w1)"
      and lt: "score (fst (players g1)) < 100" "score (snd (players g1)) < 100"
      by (simp_all add: check_winner_cases split: if_splits)
    have idx2: "current_player_index (switch_turn g1) = 0 \<or> current_player_index (switch_turn g1) = 1"
      using idx1 by (auto simp: switch_turn_simps)
    from "1.IH" [OF t refl refl cw [symmetric] refl rec idx2] lt
    obtain pw qw ls' where
      r: "current_player g' = Inr pw" "current_player (switch_turn g') = Inr qw"
         "100 \<le> score pw" "score qw < 100"
         "stdout w' = stdout w1 @ ls' @ [Wins (name pw) (score pw)]" "\<forall>n s. Wins n s \<notin> set ls'"
      by (auto simp: switch_turn_simps)
    have "stdout w' = stdout w @ ((TurnBanner (name p) # ls) @ ls') @ [Wins (name pw) (score pw)]"
      using r(5) s(6) by simp
    moreover have "\<forall>n s. Wins n s \<notin> set ((TurnBanner (name p) # ls) @ ls')"
      using nw r(6) by simp
    ultimately show ?thesis
      using r(1-4) by blast
  qed
qed

lemma turns_append: "turns (xs @ ys) = turns xs @ turns ys"
  by (induction xs rule: turns.induct) simp_all

lemma turns_in_turn: "list_all in_turn ls \<Longrightarrow> turns ls = []"
  by (induction ls rule: turns.induct) simp_all


subsection \<open>The loop of \<^verbatim>\<open>TimedGameProxy.start\<close>\<close>

lemma declare_winner_cases: "declare_winner g w = emit (time_up_line g) w"
  by (simp add: declare_winner_def time_up_line_def split: prod.splits)

lemma turns_time_up_line: "turns [time_up_line g] = []"
  by (simp add: time_up_line_def)

lemma take_turn_clock:
  assumes "take_turn g w = Some (Inr (g1, w1))"
  shows "clock w1 = clock w"
    and "\<exists>n ls. stdout w1 = stdout w @ TurnBanner n # ls \<and> list_all in_turn ls"
    and "Game.more g1 = Game.more g"
proof -
  from take_turn_cases [OF assms] obtain p p' where
    p: "current_player g = Inr p" "play_turn p w = Some (Inr (p', w1))"
       "g1 = put_current_player g p'"
    by blast
  from play_turn_frame [OF p(2)] show "clock w1 = clock w"
    and "\<exists>n ls. stdout w1 = stdout w @ TurnBanner n # ls \<and> list_all in_turn ls"
    by blast+
  from p(3) show "Game.more g1 = Game.more g"
    by (simp add: put_current_player_index)
qed

lemma check_winner_clock: "clock (snd (check_winner g w)) = clock w"
  by (simp add: check_winner_cases emit_frame)

lemma start_time_kept:
  "Game.more (g1 :: TimedGameProxy) = Game.more (g :: TimedGameProxy) \<Longrightarrow>
   start_time g1 = start_time g"
  by (cases g, cases g1) simp

lemma start_time_switch_turn: "start_time (switch_turn g) = start_time (g :: TimedGameProxy)"
  by (simp add: switch_turn_def)

lemma timed_start_loop_deadline:
  "time_py w = Some (t, w0) \<Longrightarrow> 60 \<le> t - start_time g \<Longrightarrow>
   timed_start_loop g w = Some (Inr (g, declare_winner g w0))"
  by (subst timed_start_loop.simps) simp

lemma timed_start_loop_step:
  "time_py w = Some (t, w0) \<Longrightarrow> t - start_time g < 60 \<Longrightarrow>
   timed_start_loop g w =
     (case take_turn g w0 of
        None \<Rightarrow> None
      | Some (Inl e) \<Rightarrow> Some (Inl e)
      | Some (Inr (g1, w1)) \<Rightarrow>
          if fst (check_winner g1 w1) then Some (Inr (g1, snd (check_winner g1 w1)))
          else timed_start_loop (switch_turn g1) w1)"
  by (subst timed_start_loop.simps)
    (auto simp: check_winner_cases split: option.splits sum.splits)

lemma time_py_Some: "time_py w = Some (t, w0) \<Longrightarrow>
   clock w = t # clock w0 \<and> stdout w0 = stdout w \<and> stdin w0 = stdin w \<and> rng w0 = rng w"
  by (auto simp: time_py_def split: list.splits)

lemma timed_start_loop_Inr:
  "timed_start_loop g w = Some (Inr (g', w')) \<Longrightarrow> \<exists>t w0. time_py w = Some (t, w0)"
  by (subst (asm) timed_start_loop.simps) (auto split: option.splits)

lemma timed_start_loop_trace:
  "timed_start_loop g w = Some (Inr (g', w')) \<Longrightarrow>
   \<exists>ts. clock w = ts @ clock w' \<and> ts \<noteq> [] \<and> start_time g' = start_time g \<and>
     (\<forall>t\<in>set (butlast ts). t - start_time g < 60) \<and>
     stdout w' \<noteq> [] \<and>
     (if 60 \<le> last ts - start_time g
      then last (stdout w') = time_up_line g' \<and>
           length (turns (stdout w')) = length (turns (stdout w)) + length ts - 1
      else (\<exists>n s. last (stdout w') = Wins n s \<and> 100 \<le> s) \<and>
           length (turns (stdout w')) = length (turns (stdout w)) + length ts)"
proof (induction g w rule: timed_start_loop.induct)
  case (1 g w)
  from timed_start_loop_Inr [OF "1.prems"] obtain t w0 where tp: "time_py w = Some (t, w0)"
    by blast
  note c0 = time_py_Some [OF tp]
  show ?case
  proof (cases "60 \<le> t - start_time g")
    case True
    from timed_start_loop_deadline [OF tp True] "1.prems"
    have res: "g' = g" "w' = emit (time_up_line g) w0"
      by (simp_all add: declare_winner_cases)
    show ?thesis
      using res c0 True
      by (intro exI [of _ "[t]"]) (simp add: emit_frame turns_append turns_time_up_line)
  next
    case False
    then have lt: "t - start_time g < 60" by simp
    note st = timed_start_loop_step [OF tp lt]
    from "1.prems" st obtain g1 w1 where t1: "take_turn g w0 = Some (Inr (g1, w1))"
      by (auto split: option.splits sum.splits)
    note f = take_turn_clock [OF t1]
    from f(2) obtain n ls where
      o: "stdout w1 = stdout w @ TurnBanner n # ls" "list_all in_turn ls"
      using c0 by auto
    have tu: "turns (stdout w1) = turns (stdout w) @ [n]"
      using o turns_in_turn [OF o(2)] by (simp add: turns_append)
    have s1: "start_time g1 = start_time g"
      using f(3) by (rule start_time_kept)
    show ?thesis
    proof (cases "fst (check_winner g1 w1)")
      case True
      with "1.prems" st t1 have res: "g' = g1" "w' = snd (check_winner g1 w1)"
        by auto
      from True res(2) obtain nm s where
        w: "w' = emit (Wins nm s) w1" "100 \<le> s"
        by (auto simp: check_winner_cases split: if_splits)
      show ?thesis
        using res(1) w s1 f(1) c0 lt tu
        by (intro exI [of _ "[t]"]) (simp add: emit_frame turns_append)
    next
      case nw: False
      with "1.prems" st t1 have rec: "timed_start_loop (switch_turn g1) w1 = Some (Inr (g', w'))"
        by simp
      from nw have cw: "check_winner g1 w1 = (False, w1)"
        by (simp add: check_winner_cases split: if_splits)
      from "1.IH" [OF tp refl False t1 refl refl cw [symmetric] refl rec]
      obtain ts where
        i: "clock w1 = ts @ clock w'" "ts \<noteq> []" "start_time g' = start_time (switch_turn g1)"
          "\<forall>t\<in>set (butlast ts). t - start_time (switch_turn g1) < 60"
          "stdout w' \<noteq> []"
          "if 60 \<le> last ts - start_time (switch_turn g1)
           then last (stdout w') = time_up_line g' \<and>
             length (turns (stdout w')) = length (turns (stdout w1)) + length ts - 1
           else (\<exists>n s. last (stdout w') = Wins n s \<and> 100 \<le> s) \<and>
             length (turns (stdout w')) = length (turns (stdout w1)) + length ts"
        by blast
      have s2: "start_time (switch_turn g1) = start_time g"
        using s1 by (simp add: start_time_switch_turn)
      show ?thesis
      proof (intro exI [of _ "t # ts"] conjI)
        show "clock w = (t # ts) @ clock w'"
          using c0 f(1) i(1) by simp
        show "t # ts \<noteq> []" by simp
        show "start_time g' = start_time g"
          using i(3) s2 by simp
        show "\<forall>t\<in>set (butlast (t # ts)). t - start_time g < 60"
          using i(2,4) s2 lt by simp
        show "stdout w' \<noteq> []" by (rule i(5))
        show "if 60 \<le> last (t # ts) - start_time g
          then last (stdout w') = time_up_line g' \<and>
             length (turns (stdout w')) = length (turns (stdout w)) + length (t # ts) - 1
          else (\<exists>n s. last (stdout w') = Wins n s \<and> 100 \<le> s) \<and>
             length (turns (stdout w')) = length (turns (stdout w)) + length (t # ts)"
          using i(2,6) s2 tu by (auto split: if_splits)
      qed
    qed
  qed
qed

text \<open>The equations that evaluate a run on concrete inputs.\<close>

lemmas run_simps =
  play_turn_def play_turn_loop.simps roll_def emit_def get_decision_def input_py_def
  decide_def add_to_score_def ComputerPlayer_init_def Player_init_def lower_def strip_def
  isspace_def lower_char_def Let_def take_turn_def current_player_def put_current_player_def
  check_winner_def start_loop.simps switch_turn_def start_def

section \<open>Properties\<close>

subsection \<open>The computer's strategy\<close>

text \<open>
  C1. For every turn total and every accumulated score, \<open>decide\<close> answers hold
  (\<open>''h''\<close>) exactly when the turn total is at least \<open>min 25 (100 - score)\<close> and answers
  roll (\<open>''r''\<close>) exactly when it is below; with score 85 and turn total 20 it holds,
  with score 50 and turn total 10 it rolls.
\<close>

theorem decide_policy:
  "(decide p turn_total = ''h'') = (min 25 (100 - score p) \<le> turn_total) \<and>
   (decide p turn_total = ''r'') = (turn_total < min 25 (100 - score p)) \<and>
   decide (p\<lparr>score := 85\<rparr>) 20 = ''h'' \<and>
   decide (p\<lparr>score := 50\<rparr>) 10 = ''r''"
  by (auto simp: decide_def)

subsection \<open>A roll of 1\<close>

text \<open>
  C2. Whatever the turn total so far, a roll of 1 ends the turn at that roll: nothing more
  is rolled, nothing is read, and the player comes back unchanged. And in any turn that
  ends, if a 1 is among the rolls drawn, it is the last roll drawn and the player after
  the turn is the player before it: the score is what it was and the turn total is lost.
\<close>

theorem roll_one_ends_turn:
  "(rng w = 1 # rest \<longrightarrow>
      (\<exists>w'. play_turn_loop p t w = Some (Inr (p, w')) \<and> rng w' = rest \<and> stdin w' = stdin w)) \<and>
   (play_turn p w0 = Some (Inr (p', w1)) \<longrightarrow> rng w0 = used @ rng w1 \<longrightarrow> 1 \<in> set used \<longrightarrow>
      last used = 1 \<and> 1 \<notin> set (butlast used) \<and> p' = p)"
proof (intro conjI impI)
  assume "rng w = 1 # rest"
  then show "\<exists>w'. play_turn_loop p t w = Some (Inr (p, w')) \<and> rng w' = rest \<and> stdin w' = stdin w"
    by (simp add: play_turn_loop_bust emit_def)
next
  assume a: "play_turn p w0 = Some (Inr (p', w1))" "rng w0 = used @ rng w1" "1 \<in> set used"
  from play_turn_cases [OF a(1)] obtain u where u: "rng w0 = u @ rng w1" "u \<noteq> []"
    "1 \<notin> set (butlast u)" "if last u = 1 then p' = p else True"
    by (auto split: if_splits)
  from u(1) a(2) have eq: "u = used" by simp
  have "last used = 1"
  proof (rule ccontr)
    assume "last used \<noteq> 1"
    moreover have "set used = set (butlast used @ [last used])"
      using u(2) eq by simp
    ultimately show False using a(3) u(3) eq by (simp del: append_butlast_last_id)
  qed
  then show "last used = 1" .
  show "1 \<notin> set (butlast used)" using u(3) eq by simp
  show "p' = p" using u(4) eq \<open>last used = 1\<close> by simp
qed

theorem roll_one_ends_turn_witness:
  "(\<exists>w'. play_turn_loop (Player_init ''Player 1'') 7
           \<lparr>rng = [1, 5], stdin = [''h''], clock = [], stdout = []\<rparr>
         = Some (Inr (Player_init ''Player 1'', w')) \<and> rng w' = [5] \<and> stdin w' = [''h'']) \<and>
   play_turn (Player_init ''Player 1'')
       \<lparr>rng = [3, 4, 1, 5], stdin = [''r'', ''r''], clock = [], stdout = []\<rparr>
     = Some (Inr (Player_init ''Player 1'',
         \<lparr>rng = [5], stdin = [], clock = [],
          stdout = [TurnBanner ''Player 1'', Rolled ''Player 1'' 3, TurnTotal 3 0, Prompt,
            Rolled ''Player 1'' 4, TurnTotal 7 0, Prompt, Rolled ''Player 1'' 1,
            RolledOne]\<rparr>)) \<and>
   last [3, 4, 1 :: int] = 1 \<and> 1 \<notin> set (butlast [3, 4, 1 :: int])"
  using roll_one_ends_turn
    [where w = "\<lparr>rng = [1, 5], stdin = [''h''], clock = [], stdout = []\<rparr>"
       and rest = "[5]" and p = "Player_init ''Player 1''" and t = 7
       and ?w0.0 = "\<lparr>rng = [3, 4, 1, 5], stdin = [''r'', ''r''], clock = [], stdout = []\<rparr>"
       and p' = "Player_init ''Player 1''"
       and ?w1.0 = "\<lparr>rng = [5], stdin = [], clock = [],
          stdout = [TurnBanner ''Player 1'', Rolled ''Player 1'' 3, TurnTotal 3 0, Prompt,
            Rolled ''Player 1'' 4, TurnTotal 7 0, Prompt, Rolled ''Player 1'' 1,
            RolledOne]\<rparr>"
       and used = "[3, 4, 1]"]
  by (simp add: play_turn_def play_turn_loop.simps roll_def emit_def get_decision_def
      input_py_def Player_init_def lower_def strip_def isspace_def lower_char_def Let_def)

subsection \<open>The turn total\<close>

text \<open>
  C3. A turn that ends has drawn the rolls \<open>used\<close>, of which none but perhaps the last
  is 1, and has taken one decision after each roll other than 1. The turn total printed after
  the \<open>k\<close>-th of these rolls is the sum of the first \<open>k\<close> rolls, printed next to the score
  the player had before the turn. The decision after the last roll, and no decision before it,
  is \<open>''h''\<close>: for a computer player the answer of \<open>decide\<close> at the running sum, for a
  human player the line read at that point, stripped and in lower case, and the turn has read
  exactly one line for each decision. If the last roll is 1 the player is unchanged; if not,
  the player after the turn is the player before it with the sum of the rolls added to the
  score. Inside the turn, a roll \<open>r\<close> other than 1 makes the turn total \<open>t + r\<close>: if no
  decision comes back the turn raises and returns no player, on \<open>''h''\<close> that total is added
  to the score and the turn ends, and on any other decision the loop goes on with the same
  player and the turn total \<open>t + r\<close>.
\<close>

theorem turn_total_is_sum:
  "(play_turn p w = Some (Inr (p', w')) \<longrightarrow>
      (\<exists>used. rng w = used @ rng w' \<and> used \<noteq> [] \<and> 1 \<notin> set (butlast used) \<and>
         (if last used = 1 then p' = p
          else p' = add_to_score p (sum_list used) \<and> score p' = score p + sum_list used) \<and>
         totals (stdout w') = totals (stdout w) @
           map (\<lambda>k. (sum_list (take (Suc k) used), score p)) [0..<decisions used] \<and>
         (if is_computer p
          then stdin w' = stdin w \<and>
               (\<forall>k<decisions used.
                  (decide p (sum_list (take (Suc k) used)) = ''h'') = (Suc k = length used))
          else \<exists>ls. stdin w = ls @ stdin w' \<and> length ls = decisions used \<and>
               (\<forall>k<length ls. (lower (strip (ls ! k)) = ''h'') = (Suc k = length used))))) \<and>
   (rng w = r # rest \<longrightarrow> r \<noteq> 1 \<longrightarrow>
      play_turn_loop p t w =
        (case get_decision p (t + r)
                (emit (TurnTotal (t + r) (score p)) (emit (Rolled (name p) r) (w\<lparr>rng := rest\<rparr>))) of
           Inl e \<Rightarrow> Some (Inl e)
         | Inr (d, w4) \<Rightarrow>
             if d = ''h'' then Some (Inr (add_to_score p (t + r), w4))
             else play_turn_loop p (t + r) w4))"
proof (intro conjI impI)
  assume "play_turn p w = Some (Inr (p', w'))"
  then have "play_turn_loop p 0 (emit (TurnBanner (name p)) w) = Some (Inr (p', w'))"
    by (simp add: play_turn_def)
  from play_turn_loop_trace [OF this] obtain used where
    u: "rng w = used @ rng w'" "used \<noteq> []" "1 \<notin> set (butlast used)"
    and c: "if last used = 1 then p' = p else p' = add_to_score p (sum_list used)"
    and t: "totals (stdout w') = totals (stdout w) @
           map (\<lambda>k. (sum_list (take (Suc k) used), score p)) [0..<decisions used]"
    and d: "if is_computer p
          then stdin w' = stdin w \<and>
               (\<forall>k<decisions used.
                  (decide p (sum_list (take (Suc k) used)) = ''h'') = (Suc k = length used))
          else \<exists>ls. stdin w = ls @ stdin w' \<and> length ls = decisions used \<and>
               (\<forall>k<length ls. (lower (strip (ls ! k)) = ''h'') = (Suc k = length used))"
    by (auto simp: emit_def totals_append split del: if_split cong: if_cong)
  from c have "if last used = 1 then p' = p
          else p' = add_to_score p (sum_list used) \<and> score p' = score p + sum_list used"
    by (simp add: add_to_score_def split: if_splits)
  with u t d show "\<exists>used. rng w = used @ rng w' \<and> used \<noteq> [] \<and> 1 \<notin> set (butlast used) \<and>
         (if last used = 1 then p' = p
          else p' = add_to_score p (sum_list used) \<and> score p' = score p + sum_list used) \<and>
         totals (stdout w') = totals (stdout w) @
           map (\<lambda>k. (sum_list (take (Suc k) used), score p)) [0..<decisions used] \<and>
         (if is_computer p
          then stdin w' = stdin w \<and>
               (\<forall>k<decisions used.
                  (decide p (sum_list (take (Suc k) used)) = ''h'') = (Suc k = length used))
          else \<exists>ls. stdin w = ls @ stdin w' \<and> length ls = decisions used \<and>
               (\<forall>k<length ls. (lower (strip (ls ! k)) = ''h'') = (Suc k = length used)))"
    by (intro exI [of _ used] conjI)
next
  assume "rng w = r # rest" "r \<noteq> 1"
  then show "play_turn_loop p t w =
        (case get_decision p (t + r)
                (emit (TurnTotal (t + r) (score p)) (emit (Rolled (name p) r) (w\<lparr>rng := rest\<rparr>))) of
           Inl e \<Rightarrow> Some (Inl e)
         | Inr (d, w4) \<Rightarrow>
             if d = ''h'' then Some (Inr (add_to_score p (t + r), w4))
             else play_turn_loop p (t + r) w4)"
    by (rule play_turn_loop_step)
qed

theorem turn_total_is_sum_witness:
  "play_turn (ComputerPlayer_init ''Player 2'')
       \<lparr>rng = [6, 5, 4, 6, 4, 2], stdin = [], clock = [], stdout = []\<rparr>
     = Some (Inr ((ComputerPlayer_init ''Player 2'')\<lparr>score := 25\<rparr>,
         \<lparr>rng = [2], stdin = [], clock = [],
          stdout = [TurnBanner ''Player 2'',
            Rolled ''Player 2'' 6, TurnTotal 6 0, Chooses ''Player 2'' ''Roll'',
            Rolled ''Player 2'' 5, TurnTotal 11 0, Chooses ''Player 2'' ''Roll'',
            Rolled ''Player 2'' 4, TurnTotal 15 0, Chooses ''Player 2'' ''Roll'',
            Rolled ''Player 2'' 6, TurnTotal 21 0, Chooses ''Player 2'' ''Roll'',
            Rolled ''Player 2'' 4, TurnTotal 25 0, Chooses ''Player 2'' ''Hold'']\<rparr>)) \<and>
   (\<exists>used. [6, 5, 4, 6, 4, 2] = used @ [2 :: int] \<and> last used \<noteq> 1 \<and> sum_list used = 25 \<and>
      decide (ComputerPlayer_init ''Player 2'') (sum_list used) = ''h'') \<and>
   play_turn \<lparr>name = ''Player 1'', score = 10, is_computer = False\<rparr>
       \<lparr>rng = [3, 4, 5], stdin = [''roll'', '' H '', ''x''], clock = [], stdout = []\<rparr>
     = Some (Inr (\<lparr>name = ''Player 1'', score = 17, is_computer = False\<rparr>,
         \<lparr>rng = [5], stdin = [''x''], clock = [],
          stdout = [TurnBanner ''Player 1'',
            Rolled ''Player 1'' 3, TurnTotal 3 10, Prompt,
            Rolled ''Player 1'' 4, TurnTotal 7 10, Prompt]\<rparr>)) \<and>
   (\<exists>used ls. [3, 4, 5] = used @ [5 :: int] \<and> (17 :: int) = 10 + sum_list used \<and>
      [''roll'', '' H '', ''x''] = ls @ [''x''] \<and> length ls = length used \<and>
      lower (strip (last ls)) = ''h'') \<and>
   play_turn_loop \<lparr>name = ''Player 1'', score = 10, is_computer = False\<rparr> 3
       \<lparr>rng = [4, 5], stdin = [], clock = [], stdout = []\<rparr>
     = Some (Inl EOFError)"
proof -
  let ?c = "ComputerPlayer_init ''Player 2''"
  let ?w = "\<lparr>rng = [6, 5, 4, 6, 4, 2], stdin = [], clock = [], stdout = []\<rparr>"
  let ?w' = "\<lparr>rng = [2], stdin = [], clock = [],
          stdout = [TurnBanner ''Player 2'',
            Rolled ''Player 2'' 6, TurnTotal 6 0, Chooses ''Player 2'' ''Roll'',
            Rolled ''Player 2'' 5, TurnTotal 11 0, Chooses ''Player 2'' ''Roll'',
            Rolled ''Player 2'' 4, TurnTotal 15 0, Chooses ''Player 2'' ''Roll'',
            Rolled ''Player 2'' 6, TurnTotal 21 0, Chooses ''Player 2'' ''Roll'',
            Rolled ''Player 2'' 4, TurnTotal 25 0, Chooses ''Player 2'' ''Hold'']\<rparr>"
  let ?h = "\<lparr>name = ''Player 1'', score = 10, is_computer = False\<rparr>"
  let ?v = "\<lparr>rng = [3, 4, 5], stdin = [''roll'', '' H '', ''x''], clock = [], stdout = []\<rparr>"
  let ?v' = "\<lparr>rng = [5], stdin = [''x''], clock = [],
          stdout = [TurnBanner ''Player 1'',
            Rolled ''Player 1'' 3, TurnTotal 3 10, Prompt,
            Rolled ''Player 1'' 4, TurnTotal 7 10, Prompt]\<rparr>"
  let ?e = "\<lparr>rng = [4, 5], stdin = [], clock = [], stdout = []\<rparr>"
  have run_c: "play_turn ?c ?w = Some (Inr (?c\<lparr>score := 25\<rparr>, ?w'))"
    by code_simp
  have run_h: "play_turn ?h ?v = Some (Inr (?h\<lparr>score := 17\<rparr>, ?v'))"
    by code_simp
  note inst_c = turn_total_is_sum [where p = ?c and w = ?w and p' = "?c\<lparr>score := 25\<rparr>"
      and w' = ?w' and r = 4 and rest = "[5]" and t = 3]
  note inst_h = turn_total_is_sum [where p = ?h and w = ?e and p' = "?h\<lparr>score := 17\<rparr>"
      and w' = ?v' and r = 4 and rest = "[5]" and t = 3]
  note inst_v = turn_total_is_sum [where p = ?h and w = ?v and p' = "?h\<lparr>score := 17\<rparr>"
      and w' = ?v' and r = 4 and rest = "[5]" and t = 3]
  have ne_c: "?c\<lparr>score := 25\<rparr> \<noteq> ?c"
    by (simp add: ComputerPlayer_init_def Player_init_def)
  from inst_c [THEN conjunct1, rule_format, OF run_c] obtain used where
    u: "rng ?w = used @ rng ?w'" "used \<noteq> []"
      "if last used = 1 then ?c\<lparr>score := 25\<rparr> = ?c
       else ?c\<lparr>score := 25\<rparr> = add_to_score ?c (sum_list used) \<and>
            score (?c\<lparr>score := 25\<rparr>) = score ?c + sum_list used"
      "if is_computer ?c
          then stdin ?w' = stdin ?w \<and>
               (\<forall>k<decisions used.
                  (decide ?c (sum_list (take (Suc k) used)) = ''h'') = (Suc k = length used))
          else \<exists>ls. stdin ?w = ls @ stdin ?w' \<and> length ls = decisions used \<and>
               (\<forall>k<length ls. (lower (strip (ls ! k)) = ''h'') = (Suc k = length used))"
    by (elim exE conjE)
  from u(3) ne_c have l: "last used \<noteq> 1"
    and sc: "score (?c\<lparr>score := 25\<rparr>) = score ?c + sum_list used"
    by (auto split: if_splits)
  from sc have s25: "sum_list used = 25"
    by (simp add: ComputerPlayer_init_def Player_init_def)
  have "is_computer ?c"
    by (simp add: ComputerPlayer_init_def Player_init_def)
  with u(4) have all: "\<forall>k<decisions used.
      (decide ?c (sum_list (take (Suc k) used)) = ''h'') = (Suc k = length used)"
    by simp
  from l u(2) have "length used - 1 < decisions used" "Suc (length used - 1) = length used"
    by (simp_all add: decisions_def)
  with all have "decide ?c (sum_list (take (length used) used)) = ''h''"
    by (metis (no_types, lifting))
  then have dh: "decide ?c (sum_list used) = ''h''"
    by simp
  from u(1) l s25 dh
  have ex_c: "\<exists>used. [6, 5, 4, 6, 4, 2] = used @ [2 :: int] \<and> last used \<noteq> 1 \<and> sum_list used = 25 \<and>
      decide ?c (sum_list used) = ''h''"
    by auto
  have ne_h: "?h\<lparr>score := 17\<rparr> \<noteq> ?h"
    by simp
  from inst_v [THEN conjunct1, rule_format, OF run_h] obtain used where
    v: "rng ?v = used @ rng ?v'" "used \<noteq> []"
      "if last used = 1 then ?h\<lparr>score := 17\<rparr> = ?h
       else ?h\<lparr>score := 17\<rparr> = add_to_score ?h (sum_list used) \<and>
            score (?h\<lparr>score := 17\<rparr>) = score ?h + sum_list used"
      "if is_computer ?h
          then stdin ?v' = stdin ?v \<and>
               (\<forall>k<decisions used.
                  (decide ?h (sum_list (take (Suc k) used)) = ''h'') = (Suc k = length used))
          else \<exists>ls. stdin ?v = ls @ stdin ?v' \<and> length ls = decisions used \<and>
               (\<forall>k<length ls. (lower (strip (ls ! k)) = ''h'') = (Suc k = length used))"
    by (elim exE conjE)
  from v(3) ne_h have lh: "last used \<noteq> 1"
    and sh: "score (?h\<lparr>score := 17\<rparr>) = score ?h + sum_list used"
    by (auto split: if_splits)
  from v(4) obtain ls where
    ls: "stdin ?v = ls @ stdin ?v'" "length ls = decisions used"
      "\<forall>k<length ls. (lower (strip (ls ! k)) = ''h'') = (Suc k = length used)"
    by auto
  from lh v(2) ls(2) have n: "length ls = length used" "ls \<noteq> []"
    by (auto simp: decisions_def)
  with v(2) have "length ls - 1 < length ls" "Suc (length ls - 1) = length used"
    by (cases ls; simp)+
  with ls(3) have "lower (strip (ls ! (length ls - 1))) = ''h''"
    by (metis (no_types, lifting))
  with n(2) have hh: "lower (strip (last ls)) = ''h''"
    by (simp add: last_conv_nth)
  from v(1) sh ls(1) n(1) hh
  have ex_h: "\<exists>used ls. [3, 4, 5] = used @ [5 :: int] \<and> (17 :: int) = 10 + sum_list used \<and>
      [''roll'', '' H '', ''x''] = ls @ [''x''] \<and> length ls = length used \<and>
      lower (strip (last ls)) = ''h''"
    by auto
  have "get_decision ?h (3 + 4)
      (emit (TurnTotal (3 + 4) (score ?h)) (emit (Rolled (name ?h) 4) (?e\<lparr>rng := [5]\<rparr>)))
      = Inl EOFError"
    by (simp add: get_decision_def input_py_def emit_def)
  with inst_h [THEN conjunct2] have eof: "play_turn_loop ?h 3 ?e = Some (Inl EOFError)"
    by simp
  from run_c ex_c run_h ex_h eof show ?thesis
    by simp
qed

subsection \<open>The time limit\<close>

text \<open>
  C4. The timed loop reads the clock once at each turn boundary, before the turn. If the
  reading is 60 seconds or more after the start of the loop, which is not before the time
  stamped by the constructor, the loop stops there without playing a turn and
  \<^verbatim>\<open>declare_winner\<close> prints the result: the player with the strictly higher score wins,
  and equal scores are a tie with no winner. If the reading is less than 60 seconds after the
  stamp, one whole turn is played; the turn and the win check read no clock and leave the
  stamp alone. A timed game that comes to an end has read the clock once per turn boundary:
  every reading but the last was under the limit; if the last one reached the limit, the game
  ended on the time-up line for the final scores, one boundary after its last turn, and if
  not, it ended on a win with at least 100 points.
\<close>

theorem deadline_at_turn_boundary:
  "(time_py w = Some (t, w0) \<longrightarrow> start_time g \<le> t0 \<longrightarrow> 60 \<le> t - t0 \<longrightarrow>
      timed_start_loop g w = Some (Inr (g, declare_winner g w0))) \<and>
   declare_winner g w0 =
     emit (if score (snd (players g)) < score (fst (players g))
           then TimeUpWins (name (fst (players g))) (score (fst (players g)))
           else if score (fst (players g)) < score (snd (players g))
           then TimeUpWins (name (snd (players g))) (score (snd (players g)))
           else TimeUpTie) w0 \<and>
   (time_py w = Some (t, w0) \<longrightarrow> t - start_time g < 60 \<longrightarrow>
      timed_start_loop g w =
        (case take_turn g w0 of
           None \<Rightarrow> None
         | Some (Inl e) \<Rightarrow> Some (Inl e)
         | Some (Inr (g1, w1)) \<Rightarrow>
             if fst (check_winner g1 w1) then Some (Inr (g1, snd (check_winner g1 w1)))
             else timed_start_loop (switch_turn g1) w1)) \<and>
   (take_turn g w0 = Some (Inr (g1, w1)) \<longrightarrow>
      clock w1 = clock w0 \<and> clock (snd (check_winner g1 w1)) = clock w0 \<and>
      start_time g1 = start_time g \<and> start_time (switch_turn g1) = start_time g) \<and>
   (timed_start_loop g w = Some (Inr (g', w')) \<longrightarrow>
      (\<exists>ts. clock w = ts @ clock w' \<and> ts \<noteq> [] \<and> start_time g' = start_time g \<and>
         (\<forall>t\<in>set (butlast ts). t - start_time g < 60) \<and>
         stdout w' \<noteq> [] \<and>
         (if 60 \<le> last ts - start_time g
          then last (stdout w') = time_up_line g' \<and>
               length (turns (stdout w')) = length (turns (stdout w)) + length ts - 1
          else (\<exists>n s. last (stdout w') = Wins n s \<and> 100 \<le> s) \<and>
               length (turns (stdout w')) = length (turns (stdout w)) + length ts)))"
proof (intro conjI impI)
  assume "time_py w = Some (t, w0)" "start_time g \<le> t0" "60 \<le> t - t0"
  then show "timed_start_loop g w = Some (Inr (g, declare_winner g w0))"
    by (intro timed_start_loop_deadline) auto
next
  show "declare_winner g w0 =
     emit (if score (snd (players g)) < score (fst (players g))
           then TimeUpWins (name (fst (players g))) (score (fst (players g)))
           else if score (fst (players g)) < score (snd (players g))
           then TimeUpWins (name (snd (players g))) (score (snd (players g)))
           else TimeUpTie) w0"
    by (simp add: declare_winner_cases time_up_line_def)
next
  assume "time_py w = Some (t, w0)" "t - start_time g < 60"
  then show "timed_start_loop g w =
        (case take_turn g w0 of
           None \<Rightarrow> None
         | Some (Inl e) \<Rightarrow> Some (Inl e)
         | Some (Inr (g1, w1)) \<Rightarrow>
             if fst (check_winner g1 w1) then Some (Inr (g1, snd (check_winner g1 w1)))
             else timed_start_loop (switch_turn g1) w1)"
    by (rule timed_start_loop_step)
next
  assume a: "take_turn g w0 = Some (Inr (g1, w1))"
  note f = take_turn_clock [OF a]
  show "clock w1 = clock w0" by (rule f(1))
  show "clock (snd (check_winner g1 w1)) = clock w0"
    using f(1) by (simp add: check_winner_clock)
  show "start_time g1 = start_time g"
    using f(3) by (rule start_time_kept)
  then show "start_time (switch_turn g1) = start_time g"
    by (simp add: start_time_switch_turn)
next
  assume "timed_start_loop g w = Some (Inr (g', w'))"
  then show "\<exists>ts. clock w = ts @ clock w' \<and> ts \<noteq> [] \<and> start_time g' = start_time g \<and>
         (\<forall>t\<in>set (butlast ts). t - start_time g < 60) \<and>
         stdout w' \<noteq> [] \<and>
         (if 60 \<le> last ts - start_time g
          then last (stdout w') = time_up_line g' \<and>
               length (turns (stdout w')) = length (turns (stdout w)) + length ts - 1
          else (\<exists>n s. last (stdout w') = Wins n s \<and> 100 \<le> s) \<and>
               length (turns (stdout w')) = length (turns (stdout w)) + length ts)"
    by (rule timed_start_loop_trace)
qed

theorem deadline_at_turn_boundary_witness:
  "timed_start_loop
     \<lparr>players = (\<lparr>name = ''Player 1'', score = 60, is_computer = False\<rparr>,
                 \<lparr>name = ''Player 2'', score = 45, is_computer = True\<rparr>),
      current_player_index = 1, start_time = 1000\<rparr>
     \<lparr>rng = [6], stdin = [], clock = [1061], stdout = []\<rparr>
   = Some (Inr
      (\<lparr>players = (\<lparr>name = ''Player 1'', score = 60, is_computer = False\<rparr>,
                   \<lparr>name = ''Player 2'', score = 45, is_computer = True\<rparr>),
        current_player_index = 1, start_time = 1000\<rparr>,
       \<lparr>rng = [6], stdin = [], clock = [], stdout = [TimeUpWins ''Player 1'' 60]\<rparr>)) \<and>
   timed_start_loop
     \<lparr>players = (\<lparr>name = ''Player 1'', score = 42, is_computer = False\<rparr>,
                 \<lparr>name = ''Player 2'', score = 42, is_computer = True\<rparr>),
      current_player_index = 0, start_time = 1000\<rparr>
     \<lparr>rng = [1, 6], stdin = [], clock = [1059, 1060], stdout = []\<rparr>
   = Some (Inr
      (\<lparr>players = (\<lparr>name = ''Player 1'', score = 42, is_computer = False\<rparr>,
                   \<lparr>name = ''Player 2'', score = 42, is_computer = True\<rparr>),
        current_player_index = 1, start_time = 1000\<rparr>,
       \<lparr>rng = [6], stdin = [], clock = [],
        stdout = [TurnBanner ''Player 1'', Rolled ''Player 1'' 1, RolledOne, TimeUpTie]\<rparr>)) \<and>
   (\<exists>ts. [1059, 1060 :: real] = ts @ [] \<and> 60 \<le> last ts - 1000 \<and>
      (\<forall>t\<in>set (butlast ts). t - 1000 < 60) \<and> length [''Player 1''] = 0 + length ts - 1)"
proof -
  let ?p1 = "\<lparr>name = ''Player 1'', score = 60, is_computer = False\<rparr>"
  let ?p2 = "\<lparr>name = ''Player 2'', score = 45, is_computer = True\<rparr>"
  let ?g = "\<lparr>players = (?p1, ?p2), current_player_index = 1, start_time = 1000\<rparr>"
  let ?w = "\<lparr>rng = [6], stdin = [], clock = [1061], stdout = [] :: line list\<rparr>"
  let ?wa = "\<lparr>rng = [6], stdin = [], clock = [], stdout = [] :: line list\<rparr>"
  let ?q1 = "\<lparr>name = ''Player 1'', score = 42, is_computer = False\<rparr>"
  let ?q2 = "\<lparr>name = ''Player 2'', score = 42, is_computer = True\<rparr>"
  let ?h = "\<lparr>players = (?q1, ?q2), current_player_index = 0, start_time = 1000\<rparr>"
  let ?h1 = "\<lparr>players = (?q1, ?q2), current_player_index = 1, start_time = 1000\<rparr>"
  let ?v = "\<lparr>rng = [1, 6], stdin = [], clock = [1059, 1060], stdout = [] :: line list\<rparr>"
  let ?va = "\<lparr>rng = [1, 6], stdin = [], clock = [1060], stdout = [] :: line list\<rparr>"
  let ?v1 = "\<lparr>rng = [6], stdin = [], clock = [1060],
      stdout = [TurnBanner ''Player 1'', Rolled ''Player 1'' 1, RolledOne]\<rparr>"
  let ?v2 = "\<lparr>rng = [6], stdin = [], clock = [],
      stdout = [TurnBanner ''Player 1'', Rolled ''Player 1'' 1, RolledOne]\<rparr>"
  let ?v' = "\<lparr>rng = [6], stdin = [], clock = [],
      stdout = [TurnBanner ''Player 1'', Rolled ''Player 1'' 1, RolledOne, TimeUpTie]\<rparr>"
  note i1 = deadline_at_turn_boundary [where g = ?g and w = ?w and t = 1061 and ?w0.0 = ?wa
      and ?t0.0 = 1001 and ?g1.0 = ?g and ?w1.0 = ?wa and g' = ?g and w' = ?wa]
  have a: "timed_start_loop ?g ?w = Some (Inr (?g, declare_winner ?g ?wa))"
    by (rule i1 [THEN conjunct1, rule_format]) (simp_all add: time_py_def)
  have b: "declare_winner ?g ?wa = ?wa\<lparr>stdout := [TimeUpWins ''Player 1'' 60]\<rparr>"
    using i1 [THEN conjunct2, THEN conjunct1] by (simp add: emit_def)
  note i2 = deadline_at_turn_boundary [where g = ?h and w = ?v and t = 1059 and ?w0.0 = ?va
      and ?t0.0 = 1000 and ?g1.0 = ?h and ?w1.0 = ?v1 and g' = ?h1 and w' = ?v']
  have tt: "take_turn ?h ?va = Some (Inr (?h, ?v1))"
    by (simp add: run_simps)
  have "timed_start_loop ?h ?v = timed_start_loop (switch_turn ?h) ?v1"
    using i2 [THEN conjunct2, THEN conjunct2, THEN conjunct1, rule_format, of ] tt
    by (simp add: time_py_def check_winner_def)
  moreover
  note i3 = deadline_at_turn_boundary [where g = ?h1 and w = ?v1 and t = 1060 and ?w0.0 = ?v2
      and ?t0.0 = 1000 and ?g1.0 = ?h and ?w1.0 = ?v1 and g' = ?h1 and w' = ?v']
  have "timed_start_loop ?h1 ?v1 = Some (Inr (?h1, declare_winner ?h1 ?v2))"
    by (rule i3 [THEN conjunct1, rule_format]) (simp_all add: time_py_def)
  moreover have "declare_winner ?h1 ?v2 = ?v'"
    using i3 [THEN conjunct2, THEN conjunct1] by (simp add: emit_def)
  ultimately have c: "timed_start_loop ?h ?v = Some (Inr (?h1, ?v'))"
    by (simp add: switch_turn_def)
  from i2 [THEN conjunct2, THEN conjunct2, THEN conjunct2, THEN conjunct2, rule_format, OF c]
  obtain ts where ts: "clock ?v = ts @ clock ?v'"
    "\<forall>t\<in>set (butlast ts). t - start_time ?h < 60"
    "if 60 \<le> last ts - start_time ?h
          then last (stdout ?v') = time_up_line ?h1 \<and>
               length (turns (stdout ?v')) = length (turns (stdout ?v)) + length ts - 1
          else (\<exists>n s. last (stdout ?v') = Wins n s \<and> 100 \<le> s) \<and>
               length (turns (stdout ?v')) = length (turns (stdout ?v)) + length ts"
    by (elim exE conjE)
  from ts(1) have e: "ts = [1059, 1060]" by simp
  with ts(2,3) have "\<exists>ts. [1059, 1060 :: real] = ts @ [] \<and> 60 \<le> last ts - 1000 \<and>
      (\<forall>t\<in>set (butlast ts). t - 1000 < 60) \<and> length [''Player 1''] = 0 + length ts - 1"
    by (intro exI [of _ ts]) simp
  with a b c show ?thesis by simp
qed

subsection \<open>Winning\<close>

text \<open>
  C5. After each turn the game checks both scores: \<^verbatim>\<open>check_winner\<close> answers
  True exactly when some player's score is at least 100, and then prints the winner's line for
  the first such player, and prints nothing otherwise. When it answers True the loop stops with
  the game as that turn left it, and otherwise it goes on with the other player. A game started
  with both scores below 100 that comes to an end ends with the current player at 100 or more,
  the other player below 100, and the winner's line as the last line printed, the only such
  line of the run.
\<close>

theorem win_stops_loop:
  "fst (check_winner g w) = (100 \<le> score (fst (players g)) \<or> 100 \<le> score (snd (players g))) \<and>
   snd (check_winner g w) =
     (if 100 \<le> score (fst (players g))
      then emit (Wins (name (fst (players g))) (score (fst (players g)))) w
      else if 100 \<le> score (snd (players g))
      then emit (Wins (name (snd (players g))) (score (snd (players g)))) w
      else w) \<and>
   (take_turn g0 w0 = Some (Inr (g1, w1)) \<longrightarrow>
      start_loop g0 w0 =
        (if 100 \<le> score (fst (players g1)) \<or> 100 \<le> score (snd (players g1))
         then Some (Inr (g1, snd (check_winner g1 w1)))
         else start_loop (switch_turn g1) w1)) \<and>
   (start_loop g0 w0 = Some (Inr (g', w')) \<longrightarrow>
    current_player_index g0 = 0 \<or> current_player_index g0 = 1 \<longrightarrow>
    score (fst (players g0)) < 100 \<longrightarrow> score (snd (players g0)) < 100 \<longrightarrow>
      (\<exists>p q ls. current_player g' = Inr p \<and> current_player (switch_turn g') = Inr q \<and>
         100 \<le> score p \<and> score q < 100 \<and>
         stdout w' = stdout w0 @ ls @ [Wins (name p) (score p)] \<and>
         (\<forall>n s. Wins n s \<notin> set ls)))"
proof (intro conjI impI)
  show "fst (check_winner g w) = (100 \<le> score (fst (players g)) \<or> 100 \<le> score (snd (players g)))"
    by (simp add: check_winner_cases)
next
  show "snd (check_winner g w) =
     (if 100 \<le> score (fst (players g))
      then emit (Wins (name (fst (players g))) (score (fst (players g)))) w
      else if 100 \<le> score (snd (players g))
      then emit (Wins (name (snd (players g))) (score (snd (players g)))) w
      else w)"
    by (simp add: check_winner_cases)
next
  assume "take_turn g0 w0 = Some (Inr (g1, w1))"
  from start_loop_unfold [OF this]
  show "start_loop g0 w0 =
        (if 100 \<le> score (fst (players g1)) \<or> 100 \<le> score (snd (players g1))
         then Some (Inr (g1, snd (check_winner g1 w1)))
         else start_loop (switch_turn g1) w1)"
    by (simp add: check_winner_cases)
next
  assume "start_loop g0 w0 = Some (Inr (g', w'))"
    "current_player_index g0 = 0 \<or> current_player_index g0 = 1"
    "score (fst (players g0)) < 100" "score (snd (players g0)) < 100"
  then show "\<exists>p q ls. current_player g' = Inr p \<and> current_player (switch_turn g') = Inr q \<and>
         100 \<le> score p \<and> score q < 100 \<and>
         stdout w' = stdout w0 @ ls @ [Wins (name p) (score p)] \<and>
         (\<forall>n s. Wins n s \<notin> set ls)"
    by (rule start_loop_wins)
qed

theorem win_stops_loop_witness:
  "take_turn
     \<lparr>players = (\<lparr>name = ''Player 1'', score = 96, is_computer = False\<rparr>,
                 \<lparr>name = ''Player 2'', score = 95, is_computer = False\<rparr>),
      current_player_index = 0\<rparr>
     \<lparr>rng = [1, 5, 2], stdin = [''h''], clock = [], stdout = []\<rparr>
   = Some (Inr
      (\<lparr>players = (\<lparr>name = ''Player 1'', score = 96, is_computer = False\<rparr>,
                   \<lparr>name = ''Player 2'', score = 95, is_computer = False\<rparr>),
        current_player_index = 0\<rparr>,
       \<lparr>rng = [5, 2], stdin = [''h''], clock = [],
        stdout = [TurnBanner ''Player 1'', Rolled ''Player 1'' 1, RolledOne]\<rparr>)) \<and>
   start_loop
     \<lparr>players = (\<lparr>name = ''Player 1'', score = 96, is_computer = False\<rparr>,
                 \<lparr>name = ''Player 2'', score = 95, is_computer = False\<rparr>),
      current_player_index = 0\<rparr>
     \<lparr>rng = [1, 5, 2], stdin = [''h''], clock = [], stdout = []\<rparr>
   = Some (Inr
      (\<lparr>players = (\<lparr>name = ''Player 1'', score = 96, is_computer = False\<rparr>,
                   \<lparr>name = ''Player 2'', score = 100, is_computer = False\<rparr>),
        current_player_index = 1\<rparr>,
       \<lparr>rng = [2], stdin = [], clock = [],
        stdout = [TurnBanner ''Player 1'', Rolled ''Player 1'' 1, RolledOne,
          TurnBanner ''Player 2'', Rolled ''Player 2'' 5, TurnTotal 5 95, Prompt,
          Wins ''Player 2'' 100]\<rparr>)) \<and>
   (\<exists>p. current_player
        \<lparr>players = (\<lparr>name = ''Player 1'', score = 96, is_computer = False\<rparr>,
                   \<lparr>name = ''Player 2'', score = 100, is_computer = False\<rparr>),
         current_player_index = 1\<rparr> = Inr p \<and> 100 \<le> score p)"
proof -
  let ?p1 = "\<lparr>name = ''Player 1'', score = 96, is_computer = False\<rparr>"
  let ?p2 = "\<lparr>name = ''Player 2'', score = 95, is_computer = False\<rparr>"
  let ?g0 = "\<lparr>players = (?p1, ?p2), current_player_index = 0\<rparr>"
  let ?w0 = "\<lparr>rng = [1, 5, 2], stdin = [''h''], clock = [], stdout = []\<rparr>"
  let ?w1 = "\<lparr>rng = [5, 2], stdin = [''h''], clock = [],
        stdout = [TurnBanner ''Player 1'', Rolled ''Player 1'' 1, RolledOne]\<rparr>"
  let ?g' = "\<lparr>players = (?p1, ?p2\<lparr>score := 100\<rparr>), current_player_index = 1\<rparr>"
  let ?w' = "\<lparr>rng = [2], stdin = [], clock = [],
        stdout = [TurnBanner ''Player 1'', Rolled ''Player 1'' 1, RolledOne,
          TurnBanner ''Player 2'', Rolled ''Player 2'' 5, TurnTotal 5 95, Prompt,
          Wins ''Player 2'' 100]\<rparr>"
  have a: "take_turn ?g0 ?w0 = Some (Inr (?g0, ?w1))"
    by (simp add: run_simps)
  have b: "start_loop ?g0 ?w0 = Some (Inr (?g', ?w'))"
    by (simp add: run_simps)
  note inst = win_stops_loop [where g = ?g0 and w = ?w0 and ?g0.0 = ?g0 and ?w0.0 = ?w0
      and ?g1.0 = ?g0 and ?w1.0 = ?w1 and g' = ?g' and w' = ?w']
  note last_part = inst [THEN conjunct2, THEN conjunct2, THEN conjunct2, rule_format, OF b]
  have "\<exists>p q ls. current_player ?g' = Inr p \<and> current_player (switch_turn ?g') = Inr q \<and>
         100 \<le> score p \<and> score q < 100 \<and>
         stdout ?w' = stdout ?w0 @ ls @ [Wins (name p) (score p)] \<and>
         (\<forall>n s. Wins n s \<notin> set ls)"
    by (rule last_part) simp_all
  then obtain p where "current_player ?g' = Inr p" "100 \<le> score p"
    by (elim exE conjE)
  then have "\<exists>p. current_player ?g' = Inr p \<and> 100 \<le> score p"
    by (intro exI conjI)
  with a b show ?thesis by simp
qed

subsection \<open>Whose turn it is\<close>




subsection \<open>What a turn may change\<close>

text \<open>
  C10. A turn leaves the index of the current player and the other player as they were;
  of the active player it keeps the name and the kind, and, when the die shows values from
  1 to 6, the score after the turn is at least the score before it.
\<close>

theorem take_turn_frame:
  "take_turn g w = Some (Inr (g1, w1)) \<Longrightarrow>
   current_player_index g1 = current_player_index g \<and>
   (current_player_index g = 0 \<longrightarrow>
      snd (players g1) = snd (players g) \<and>
      name (fst (players g1)) = name (fst (players g)) \<and>
      is_computer (fst (players g1)) = is_computer (fst (players g)) \<and>
      (list_all (\<lambda>r. 1 \<le> r \<and> r \<le> 6) (rng w) \<longrightarrow>
         score (fst (players g)) \<le> score (fst (players g1)))) \<and>
   (current_player_index g = 1 \<longrightarrow>
      fst (players g1) = fst (players g) \<and>
      name (snd (players g1)) = name (snd (players g)) \<and>
      is_computer (snd (players g1)) = is_computer (snd (players g)) \<and>
      (list_all (\<lambda>r. 1 \<le> r \<and> r \<le> 6) (rng w) \<longrightarrow>
         score (snd (players g)) \<le> score (snd (players g1))))"
proof -
  assume a: "take_turn g w = Some (Inr (g1, w1))"
  from take_turn_cases [OF a] obtain p p' where
    p: "current_player g = Inr p" "play_turn p w = Some (Inr (p', w1))"
       "g1 = put_current_player g p'"
    by blast
  note pl = play_turn_player [OF p(2)]
  have ge1: "list_all (\<lambda>r. 1 \<le> r \<and> r \<le> 6) (rng w) \<Longrightarrow> list_all (\<lambda>r. 1 \<le> r) (rng w)"
    by (induction "rng w") (auto simp: list_all_iff)
  have i: "current_player_index g1 = current_player_index g"
    using p(3) by (simp add: put_current_player_index)
  have z: "current_player_index g = 0 \<longrightarrow>
      snd (players g1) = snd (players g) \<and>
      name (fst (players g1)) = name (fst (players g)) \<and>
      is_computer (fst (players g1)) = is_computer (fst (players g)) \<and>
      (list_all (\<lambda>r. 1 \<le> r \<and> r \<le> 6) (rng w) \<longrightarrow>
         score (fst (players g)) \<le> score (fst (players g1)))"
  proof
    assume 0: "current_player_index g = 0"
    with p(1) have "p = fst (players g)" by (simp add: current_player_0)
    moreover from 0 p(3) have "players g1 = (p', snd (players g))"
      by (simp add: put_current_player_0)
    ultimately show "snd (players g1) = snd (players g) \<and>
      name (fst (players g1)) = name (fst (players g)) \<and>
      is_computer (fst (players g1)) = is_computer (fst (players g)) \<and>
      (list_all (\<lambda>r. 1 \<le> r \<and> r \<le> 6) (rng w) \<longrightarrow>
         score (fst (players g)) \<le> score (fst (players g1)))"
      using pl ge1 by simp
  qed
  have o: "current_player_index g = 1 \<longrightarrow>
      fst (players g1) = fst (players g) \<and>
      name (snd (players g1)) = name (snd (players g)) \<and>
      is_computer (snd (players g1)) = is_computer (snd (players g)) \<and>
      (list_all (\<lambda>r. 1 \<le> r \<and> r \<le> 6) (rng w) \<longrightarrow>
         score (snd (players g)) \<le> score (snd (players g1)))"
  proof
    assume 1: "current_player_index g = 1"
    with p(1) have "p = snd (players g)" by (simp add: current_player_1)
    moreover from 1 p(3) have "players g1 = (fst (players g), p')"
      by (simp add: put_current_player_1)
    ultimately show "fst (players g1) = fst (players g) \<and>
      name (snd (players g1)) = name (snd (players g)) \<and>
      is_computer (snd (players g1)) = is_computer (snd (players g)) \<and>
      (list_all (\<lambda>r. 1 \<le> r \<and> r \<le> 6) (rng w) \<longrightarrow>
         score (snd (players g)) \<le> score (snd (players g1)))"
      using pl ge1 by simp
  qed
  from i z o show ?thesis by blast
qed

theorem take_turn_frame_witness:
  "take_turn
     \<lparr>players = (\<lparr>name = ''Player 1'', score = 10, is_computer = False\<rparr>,
                 \<lparr>name = ''Player 2'', score = 20, is_computer = True\<rparr>),
      current_player_index = 0\<rparr>
     \<lparr>rng = [4, 3, 2], stdin = [''r'', ''h''], clock = [], stdout = []\<rparr>
   = Some (Inr
      (\<lparr>players = (\<lparr>name = ''Player 1'', score = 17, is_computer = False\<rparr>,
                   \<lparr>name = ''Player 2'', score = 20, is_computer = True\<rparr>),
        current_player_index = 0\<rparr>,
       \<lparr>rng = [2], stdin = [], clock = [],
        stdout = [TurnBanner ''Player 1'', Rolled ''Player 1'' 4, TurnTotal 4 10, Prompt,
          Rolled ''Player 1'' 3, TurnTotal 7 10, Prompt]\<rparr>)) \<and>
   list_all (\<lambda>r. 1 \<le> r \<and> r \<le> 6) [4, 3, 2 :: int] \<and>
   (10 :: int) \<le> 17 \<and>
   take_turn
     \<lparr>players = (\<lparr>name = ''Player 1'', score = 10, is_computer = False\<rparr>,
                 \<lparr>name = ''Player 2'', score = 20, is_computer = True\<rparr>),
      current_player_index = 1\<rparr>
     \<lparr>rng = [6, 1, 2], stdin = [], clock = [], stdout = []\<rparr>
   = Some (Inr
      (\<lparr>players = (\<lparr>name = ''Player 1'', score = 10, is_computer = False\<rparr>,
                   \<lparr>name = ''Player 2'', score = 20, is_computer = True\<rparr>),
        current_player_index = 1\<rparr>,
       \<lparr>rng = [2], stdin = [], clock = [],
        stdout = [TurnBanner ''Player 2'', Rolled ''Player 2'' 6, TurnTotal 6 20,
          Chooses ''Player 2'' ''Roll'', Rolled ''Player 2'' 1, RolledOne]\<rparr>))"
  using take_turn_frame
    [where g = "\<lparr>players = (\<lparr>name = ''Player 1'', score = 10, is_computer = False\<rparr>,
                 \<lparr>name = ''Player 2'', score = 20, is_computer = True\<rparr>),
      current_player_index = 0\<rparr>"
      and w = "\<lparr>rng = [4, 3, 2], stdin = [''r'', ''h''], clock = [], stdout = []\<rparr>"
      and ?g1.0 = "\<lparr>players = (\<lparr>name = ''Player 1'', score = 17, is_computer = False\<rparr>,
                   \<lparr>name = ''Player 2'', score = 20, is_computer = True\<rparr>),
        current_player_index = 0\<rparr>"
      and ?w1.0 = "\<lparr>rng = [2], stdin = [], clock = [],
        stdout = [TurnBanner ''Player 1'', Rolled ''Player 1'' 4, TurnTotal 4 10, Prompt,
          Rolled ''Player 1'' 3, TurnTotal 7 10, Prompt]\<rparr>"]
    take_turn_frame
    [where g = "\<lparr>players = (\<lparr>name = ''Player 1'', score = 10, is_computer = False\<rparr>,
                 \<lparr>name = ''Player 2'', score = 20, is_computer = True\<rparr>),
      current_player_index = 1\<rparr>"
      and w = "\<lparr>rng = [6, 1, 2], stdin = [], clock = [], stdout = []\<rparr>"
      and ?g1.0 = "\<lparr>players = (\<lparr>name = ''Player 1'', score = 10, is_computer = False\<rparr>,
                   \<lparr>name = ''Player 2'', score = 20, is_computer = True\<rparr>),
        current_player_index = 1\<rparr>"
      and ?w1.0 = "\<lparr>rng = [2], stdin = [], clock = [],
        stdout = [TurnBanner ''Player 2'', Rolled ''Player 2'' 6, TurnTotal 6 20,
          Chooses ''Player 2'' ''Roll'', Rolled ''Player 2'' 1, RolledOne]\<rparr>"]
  by (simp add: run_simps)

end
